theory Spec2Isabelle
  imports Complex_Main
begin

section \<open>Component-wise slice sampling (jass): a shallow embedding\<close>

text \<open>
  The repository has two modules: \<^verbatim>\<open>jass/samplers.py\<close> (class
  \<^verbatim>\<open>ComponentWiseSlice\<close> with the generators \<^verbatim>\<open>sample\<close> and
  \<^verbatim>\<open>_sample\<close>) and \<^verbatim>\<open>jass/mcmc.py\<close> (the driver \<^verbatim>\<open>run\<close>).

  Conventions of the embedding.
  \<^item> Coordinates, widths and random draws are finite floats; they are modelled as
    exact reals (no rounding, no overflow). A value returned by the log-density is an
    extended float \<open>fval\<close>: finite, plus or minus infinity, or NaN, with the IEEE
    meaning of subtraction and of the comparison \<^verbatim>\<open>>\<close>.
  \<^item> The random source \<^verbatim>\<open>rd\<close> is an object with hidden state and the two methods
    \<^verbatim>\<open>exponential\<close> and \<^verbatim>\<open>uniform\<close>: a record of two functions on a state
    type \<open>'s\<close>, each returning the draw and the next state.
  \<^item> The mutable things of a run (the sampler instance, the state of the random
    source) are threaded through every function in a record \<open>world\<close>, which also
    counts the calls of the log-density made so far.
  \<^item> A Python generator is a resumable state machine: a datatype for the suspended
    frame and a function for \<^verbatim>\<open>next\<close>.
  \<^item> The step-out and shrinkage loops have no iteration bound. They are
    \<^theory_text>\<open>partial_function (option)\<close>: \<open>None\<close> is a loop that never ends.
    An exception is \<open>Some (Inl e)\<close>, a normal result is \<open>Some (Inr v)\<close>.
  \<^item> The log-density is a pure, total function of the state vector; an exception
    raised inside it is outside the model. The state vector \<^verbatim>\<open>x\<close> of the source
    is the argument \<open>xs\<close> of the three loop functions.
\<close>

subsection \<open>Extended floats\<close>

datatype fval = Fin real | PInf | NInf | NaN

text \<open>\<^verbatim>\<open>p - r\<close> for a finite \<open>r\<close>.\<close>

fun fsub :: "fval \<Rightarrow> real \<Rightarrow> fval" where
  "fsub (Fin p) r = Fin (p - r)"
| "fsub PInf r = PInf"
| "fsub NInf r = NInf"
| "fsub NaN r = NaN"

text \<open>\<^verbatim>\<open>p > q\<close>: false as soon as one side is NaN.\<close>

fun fgt :: "fval \<Rightarrow> fval \<Rightarrow> bool" where
  "fgt (Fin p) (Fin q) = (q < p)"
| "fgt (Fin p) NInf = True"
| "fgt (Fin p) PInf = False"
| "fgt (Fin p) NaN = False"
| "fgt PInf (Fin q) = True"
| "fgt PInf NInf = True"
| "fgt PInf PInf = False"
| "fgt PInf NaN = False"
| "fgt NInf q = False"
| "fgt NaN q = False"

subsection \<open>Errors, the sampler instance, the random source\<close>

datatype error = ValueError | IndexError | TypeError

type_synonym 'a result = "(error + 'a) option"

definition bindE :: "'a result \<Rightarrow> ('a \<Rightarrow> 'b result) \<Rightarrow> 'b result" where
  "bindE m f = (case m of None \<Rightarrow> None | Some (Inl e) \<Rightarrow> Some (Inl e) | Some (Inr v) \<Rightarrow> f v)"

text \<open>\<^verbatim>\<open>ComponentWiseSlice.__init__\<close> stores its two arguments unchanged.\<close>

record cws =
  widths :: "real list option"
  ntune :: int

definition ComponentWiseSlice :: "real list option \<Rightarrow> int \<Rightarrow> cws" where
  "ComponentWiseSlice ws nt = \<lparr>widths = ws, ntune = nt\<rparr>"

record 's random_state =
  rd_exp :: "'s \<Rightarrow> real \<times> 's"
  rd_uniform :: "'s \<Rightarrow> real \<times> 's"

record 's world =
  self :: cws
  rd :: 's
  evals :: nat

subsection \<open>The loops of one elementary step\<close>

text \<open>
  \<^verbatim>\<open>while logprob(x) > logy: x[d] -= width\<close> and its mirror image. The counter
  \<open>n\<close> is the number of log-density calls.
\<close>

partial_function (option) step_out_left ::
  "(real list \<Rightarrow> fval) \<Rightarrow> fval \<Rightarrow> real \<Rightarrow> nat \<Rightarrow> real list \<Rightarrow> nat \<Rightarrow> (real list \<times> nat) option" where
  "step_out_left logprob logy width d xs n =
     (if fgt (logprob xs) logy
      then step_out_left logprob logy width d (xs[d := xs ! d - width]) (Suc n)
      else Some (xs, Suc n))"

partial_function (option) step_out_right ::
  "(real list \<Rightarrow> fval) \<Rightarrow> fval \<Rightarrow> real \<Rightarrow> nat \<Rightarrow> real list \<Rightarrow> nat \<Rightarrow> (real list \<times> nat) option" where
  "step_out_right logprob logy width d xs n =
     (if fgt (logprob xs) logy
      then step_out_right logprob logy width d (xs[d := xs ! d + width]) (Suc n)
      else Some (xs, Suc n))"

text \<open>
  The shrinkage loop: draw a candidate in \<open>[a, b)\<close>, accept it when its log-density
  exceeds \<open>logy\<close>, else move the end of the interval on the candidate's side of
  the old coordinate \<open>x_p\<close>. \<open>candidate\<close> is the vector after
  \<^verbatim>\<open>x[d] = a + rd_uniform() * (b - a)\<close>.
\<close>

definition candidate :: "'s random_state \<Rightarrow> nat \<Rightarrow> real \<Rightarrow> real \<Rightarrow> real list \<Rightarrow> 's \<Rightarrow> real list" where
  "candidate rng d a b xs r = xs[d := a + fst (rd_uniform rng r) * (b - a)]"

partial_function (option) shrink ::
  "'s random_state \<Rightarrow> (real list \<Rightarrow> fval) \<Rightarrow> fval \<Rightarrow> nat \<Rightarrow> real \<Rightarrow>
   real \<Rightarrow> real \<Rightarrow> real list \<Rightarrow> 's \<Rightarrow> nat \<Rightarrow> (real list \<times> fval \<times> 's \<times> nat) option" where
  "shrink rng logprob logy d x_p a b xs r n =
     (if fgt (logprob (candidate rng d a b xs r)) logy
      then Some (candidate rng d a b xs r, logprob (candidate rng d a b xs r),
                 snd (rd_uniform rng r), Suc n)
      else if candidate rng d a b xs r ! d < x_p
      then shrink rng logprob logy d x_p (candidate rng d a b xs r ! d) b
             (candidate rng d a b xs r) (snd (rd_uniform rng r)) (Suc n)
      else shrink rng logprob logy d x_p a (candidate rng d a b xs r ! d)
             (candidate rng d a b xs r) (snd (rd_uniform rng r)) (Suc n))"

subsection \<open>One elementary step\<close>

text \<open>
  The body of \<^verbatim>\<open>for d in range(ndims)\<close> in \<^verbatim>\<open>_sample\<close>, up to the
  \<^verbatim>\<open>yield\<close>. The frame of the suspended generator keeps the locals \<open>x\<close>,
  \<open>x_prob\<close>, \<open>d\<close> and \<open>logy\<close>.
\<close>

record frame =
  fr_x :: "real list"
  fr_x_prob :: fval
  fr_d :: nat
  fr_logy :: fval

text \<open>\<^verbatim>\<open>logy = x_prob - rd_exp() - 1e-9\<close>\<close>

definition slice_height :: "fval \<Rightarrow> real \<Rightarrow> fval" where
  "slice_height x_prob e = fsub (fsub x_prob e) (1 / 10 ^ 9)"

text \<open>\<^verbatim>\<open>a = x[d] - rd_uniform() * width; b = a + width\<close>\<close>

definition trial_interval :: "real list \<Rightarrow> nat \<Rightarrow> real \<Rightarrow> real \<Rightarrow> real \<times> real" where
  "trial_interval x d u width = (x ! d - u * width, x ! d - u * width + width)"

definition elem_step ::
  "'s random_state \<Rightarrow> (real list \<Rightarrow> fval) \<Rightarrow> real list \<Rightarrow> fval \<Rightarrow> nat \<Rightarrow> 's world \<Rightarrow>
   (frame \<times> 's world) result" where
  "elem_step rng logprob x x_prob d w =
     (case widths (self w) of
        None \<Rightarrow> Some (Inl TypeError)
      | Some ws \<Rightarrow>
          if length ws \<le> d then Some (Inl IndexError)
          else
            (let width = ws ! d;
                 (e, r1) = rd_exp rng (rd w);
                 logy = slice_height x_prob e;
                 (u, r2) = rd_uniform rng r1;
                 (a, b) = trial_interval x d u width;
                 x_p = x ! d
             in case step_out_left logprob logy width d (x[d := a]) (evals w) of
                  None \<Rightarrow> None
                | Some (xa, n1) \<Rightarrow>
                   (case step_out_right logprob logy width d (xa[d := b]) n1 of
                      None \<Rightarrow> None
                    | Some (xb, n2) \<Rightarrow>
                       (case shrink rng logprob logy d x_p (xa ! d) (xb ! d) xb r2 n2 of
                          None \<Rightarrow> None
                        | Some (x', p', r3, n3) \<Rightarrow>
                            Some (Inr (\<lparr>fr_x = x', fr_x_prob = p', fr_d = d, fr_logy = logy\<rparr>,
                                       w\<lparr>rd := r3, evals := n3\<rparr>))))))"

subsection \<open>The generator \<^verbatim>\<open>_sample\<close>\<close>

text \<open>
  \<open>NotStarted\<close>: created, no code run yet. \<open>Suspended fr\<close>: stopped at the
  \<^verbatim>\<open>yield\<close> with frame \<open>fr\<close>. \<open>sample_inner_next\<close> is \<^verbatim>\<open>next\<close> on it
  and returns the yielded copy of \<open>x\<close>. With \<open>ndims = 0\<close> the
  \<^verbatim>\<open>while True\<close> loop spins over an empty \<^verbatim>\<open>for\<close> and never yields.
\<close>

datatype inner = NotStarted | Suspended frame

definition sample_inner_next ::
  "'s random_state \<Rightarrow> (real list \<Rightarrow> fval) \<Rightarrow> real list \<Rightarrow> inner \<Rightarrow> 's world \<Rightarrow>
   (real list \<times> inner \<times> 's world) result" where
  "sample_inner_next rng logprob init g w =
     (let ndims = length init in
      case g of
        NotStarted \<Rightarrow>
          if ndims = 0 then None
          else bindE (elem_step rng logprob init (logprob init) 0 (w\<lparr>evals := Suc (evals w)\<rparr>))
                 (\<lambda>(fr, w'). Some (Inr (fr_x fr, Suspended fr, w')))
      | Suspended fr \<Rightarrow>
          if ndims = 0 then None
          else bindE (elem_step rng logprob (fr_x fr) (fr_x_prob fr)
                        (if Suc (fr_d fr) < ndims then Suc (fr_d fr) else 0) w)
                 (\<lambda>(fr', w'). Some (Inr (fr_x fr', Suspended fr', w'))))"

subsection \<open>The generator \<^verbatim>\<open>sample\<close>\<close>

text \<open>\<^verbatim>\<open>for v in vs: body\<close>, stopping at the first exception or divergence.\<close>

primrec for_loop :: "'a list \<Rightarrow> ('a \<Rightarrow> 'b \<Rightarrow> 'b result) \<Rightarrow> 'b \<Rightarrow> 'b result" where
  "for_loop [] body s = Some (Inr s)"
| "for_loop (v # vs) body s = bindE (body v s) (for_loop vs body)"

text \<open>\<^verbatim>\<open>self.widths[d] = 0.1 * delta + 0.9 * self.widths[d]\<close> with
  \<^verbatim>\<open>delta = np.abs(cur[d] - prev[d])\<close>\<close>

definition tune_width :: "real list \<Rightarrow> nat \<Rightarrow> real list \<Rightarrow> real list \<Rightarrow> real list" where
  "tune_width ws d cur prev = ws[d := 0.1 * \<bar>cur ! d - prev ! d\<bar> + 0.9 * ws ! d]"

text \<open>The body of the inner tuning loop; the loop state is \<open>(prev, state, world)\<close>.\<close>

definition tune_body ::
  "'s random_state \<Rightarrow> (real list \<Rightarrow> fval) \<Rightarrow> real list \<Rightarrow> nat \<Rightarrow>
   real list \<times> inner \<times> 's world \<Rightarrow> (real list \<times> inner \<times> 's world) result" where
  "tune_body rng logprob init d s =
     (case s of (prev, state, w) \<Rightarrow>
        bindE (sample_inner_next rng logprob init state w)
          (\<lambda>(cur, state', w').
             case widths (self w') of
               None \<Rightarrow> Some (Inl TypeError)
             | Some ws \<Rightarrow>
                 if length ws \<le> d then Some (Inl IndexError)
                 else Some (Inr (cur, state',
                        w'\<lparr>self := (self w')\<lparr>widths := Some (tune_width ws d cur prev)\<rparr>\<rparr>))))"

definition tune ::
  "'s random_state \<Rightarrow> (real list \<Rightarrow> fval) \<Rightarrow> real list \<Rightarrow>
   real list \<times> inner \<times> 's world \<Rightarrow> (real list \<times> inner \<times> 's world) result" where
  "tune rng logprob init s =
     (case s of (prev, state, w) \<Rightarrow>
        for_loop [0 ..< nat (ntune (self w))]
          (\<lambda>i. for_loop [0 ..< length init] (tune_body rng logprob init)) s)"

text \<open>\<^verbatim>\<open>if self.widths is None: self.widths = np.ones((len(init),), dtype=float)\<close>\<close>

definition default_widths :: "real list \<Rightarrow> 's world \<Rightarrow> 's world" where
  "default_widths init w =
     (if widths (self w) = None
      then w\<lparr>self := (self w)\<lparr>widths := Some (replicate (length init) 1)\<rparr>\<rparr>
      else w)"

text \<open>
  \<open>Created\<close>: the generator object exists, its body has not run. \<open>Sampling state\<close>:
  suspended in the final \<^verbatim>\<open>while True: yield next(state)\<close>.
\<close>

datatype gen = Created | Sampling inner

definition yield_next ::
  "'s random_state \<Rightarrow> (real list \<Rightarrow> fval) \<Rightarrow> real list \<Rightarrow> inner \<Rightarrow> 's world \<Rightarrow>
   (real list \<times> gen \<times> 's world) result" where
  "yield_next rng logprob init state w =
     bindE (sample_inner_next rng logprob init state w)
       (\<lambda>(row, state', w'). Some (Inr (row, Sampling state', w')))"

definition sample_next ::
  "'s random_state \<Rightarrow> (real list \<Rightarrow> fval) \<Rightarrow> real list \<Rightarrow> gen \<Rightarrow> 's world \<Rightarrow>
   (real list \<times> gen \<times> 's world) result" where
  "sample_next rng logprob init g w =
     (case g of
        Created \<Rightarrow>
          (let w1 = default_widths init w in
           if ntune (self w1) > 0
           then bindE (tune rng logprob init (init, NotStarted, w1))
                  (\<lambda>(prev, state, w2). yield_next rng logprob init state w2)
           else yield_next rng logprob init NotStarted w1)
      | Sampling state \<Rightarrow> yield_next rng logprob init state w)"

subsection \<open>The driver \<^verbatim>\<open>run\<close>\<close>

text \<open>
  \<^verbatim>\<open>np.empty((nsteps, len(init)))\<close> raises ValueError for a negative dimension;
  its entries are otherwise uninitialised (here 0). \<^verbatim>\<open>zip(range(nsteps), gen)\<close>
  asks the range first, so the generator is pulled once for each index and not again
  when the range is exhausted. The loop state is \<open>(samples, generator, world)\<close>.
  The random source is always a parameter here: \<^verbatim>\<open>rd=None\<close> only chooses a
  fresh \<^verbatim>\<open>RandomState\<close>, that is, some initial state of the source. The function
  returns the matrix; the world is returned with it because the sampler instance and
  the random source outlive the call.
\<close>

definition run_body ::
  "'s random_state \<Rightarrow> (real list \<Rightarrow> fval) \<Rightarrow> real list \<Rightarrow> nat \<Rightarrow>
   real list list \<times> gen \<times> 's world \<Rightarrow> (real list list \<times> gen \<times> 's world) result" where
  "run_body rng logprob init i s =
     (case s of (samples, g, w) \<Rightarrow>
        bindE (sample_next rng logprob init g w)
          (\<lambda>(sample, g', w'). Some (Inr (samples[i := sample], g', w'))))"

definition run ::
  "'s random_state \<Rightarrow> (real list \<Rightarrow> fval) \<Rightarrow> real list \<Rightarrow> int \<Rightarrow> 's world \<Rightarrow>
   (real list list \<times> 's world) result" where
  "run rng logprob init nsteps w =
     (if nsteps < 0 then Some (Inl ValueError)
      else bindE (for_loop [0 ..< nat nsteps] (run_body rng logprob init)
                    (replicate (nat nsteps) (replicate (length init) 0), Created, w))
             (\<lambda>(samples, g, w'). Some (Inr (samples, w'))))"

subsection \<open>Concrete inputs\<close>

text \<open>
  The one-dimensional target of the spec's scenarios, \<open>logDensity(x) = -x\<^sup>2/2\<close>; the
  log-density of the two-dimensional standard normal of \<^verbatim>\<open>examples/normal.py\<close>; and
  the uniform density on \<open>[-1, 1]\<close>, whose logarithm is minus infinity outside.
\<close>

definition lp_normal1 :: "real list \<Rightarrow> fval" where
  "lp_normal1 x = Fin (- (x ! 0 * x ! 0) / 2)"

definition lp_normal2 :: "real list \<Rightarrow> fval" where
  "lp_normal2 x = Fin (- (x ! 0 * x ! 0 + x ! 1 * x ! 1) / 2 - ln (2 * pi))"

definition lp_box :: "real list \<Rightarrow> fval" where
  "lp_box x = (if - 1 \<le> x ! 0 \<and> x ! 0 \<le> 1 then Fin 0 else NInf)"

text \<open>
  Two random sources that return the same draws (every exponential draw is 1, every
  uniform draw is 1/2): one without state, one that counts its calls. A third one
  whose uniform draws alternate between 1/2 and 7/8.
\<close>

definition rng_const :: "unit random_state" where
  "rng_const = \<lparr>rd_exp = (\<lambda>s. (1, s)), rd_uniform = (\<lambda>s. (1 / 2, s))\<rparr>"

definition rng_count :: "nat random_state" where
  "rng_count = \<lparr>rd_exp = (\<lambda>s. (1, Suc s)), rd_uniform = (\<lambda>s. (1 / 2, Suc s))\<rparr>"

definition rng_alt :: "bool random_state" where
  "rng_alt = \<lparr>rd_exp = (\<lambda>s. (1, s)),
               rd_uniform = (\<lambda>s. (if s then 7 / 8 else 1 / 2, \<not> s))\<rparr>"

definition world0 :: "real list option \<Rightarrow> int \<Rightarrow> 's \<Rightarrow> 's world" where
  "world0 ws nt r = \<lparr>self = ComponentWiseSlice ws nt, rd = r, evals = 0\<rparr>"

subsection \<open>The prefix of the sampling sequence\<close>

text \<open>
  In the spec's words the driver "pulls exactly \<open>nsteps\<close> elements from the sampler's
  sequence and stores them row-major". \<open>pull_seq k\<close> is that: \<open>k\<close> successive
  pulls on the generator of \<^verbatim>\<open>sample\<close>, the rows in the order they were pulled,
  with the generator and the world as the last pull left them.
\<close>

fun pull_seq ::
  "nat \<Rightarrow> 's random_state \<Rightarrow> (real list \<Rightarrow> fval) \<Rightarrow> real list \<Rightarrow> gen \<Rightarrow> 's world \<Rightarrow>
   (real list list \<times> gen \<times> 's world) result" where
  "pull_seq 0 rng logprob init g w = Some (Inr ([], g, w))"
| "pull_seq (Suc k) rng logprob init g w =
     bindE (sample_next rng logprob init g w)
       (\<lambda>(row, g', w').
          bindE (pull_seq k rng logprob init g' w')
            (\<lambda>(rows, g'', w''). Some (Inr (row # rows, g'', w''))))"

subsection \<open>Predicates of the statements\<close>

text \<open>
  A suspended frame of \<^verbatim>\<open>_sample\<close> belongs to a run on \<open>init\<close>: its state
  vector has the dimension of \<open>init\<close> and its cursor is a dimension.
\<close>

definition inner_ok :: "real list \<Rightarrow> inner \<Rightarrow> bool" where
  "inner_ok init st =
     (case st of NotStarted \<Rightarrow> True
      | Suspended fr \<Rightarrow> length (fr_x fr) = length init \<and> fr_d fr < length init)"

definition gen_ok :: "real list \<Rightarrow> gen \<Rightarrow> bool" where
  "gen_ok init g = (case g of Created \<Rightarrow> True | Sampling st \<Rightarrow> inner_ok init st)"

text \<open>The sampler holds a width vector of length \<open>k\<close> with positive entries.\<close>

definition pos_widths :: "nat \<Rightarrow> 's world \<Rightarrow> bool" where
  "pos_widths k w = (\<exists>ws. widths (self w) = Some ws \<and> length ws = k \<and> (\<forall>v\<in>set ws. 0 < v))"

text \<open>
  The number of coordinates in which two vectors differ; the state of
  \<^verbatim>\<open>_sample\<close> before its next elementary step (\<open>init\<close> when it has not
  started); and the dimension that step updates.
\<close>

definition differing :: "real list \<Rightarrow> real list \<Rightarrow> nat" where
  "differing xs ys = length (filter (\<lambda>(a, b). a \<noteq> b) (zip xs ys))"

definition prev_state :: "real list \<Rightarrow> inner \<Rightarrow> real list" where
  "prev_state init st = (case st of NotStarted \<Rightarrow> init | Suspended fr \<Rightarrow> fr_x fr)"

definition next_dim :: "real list \<Rightarrow> inner \<Rightarrow> nat" where
  "next_dim init st =
     (case st of NotStarted \<Rightarrow> 0
      | Suspended fr \<Rightarrow> if Suc (fr_d fr) < length init then Suc (fr_d fr) else 0)"

text \<open>
  Two random sources produce identical draws from states related by \<open>R\<close>: both
  methods return equal values and lead to related states again. Two worlds are
  related when their samplers hold the same widths and ask for the same number of
  tuning sweeps (\<^verbatim>\<open>range(ntune)\<close> is empty for every \<open>ntune \<le> 0\<close>), their
  evaluation counts are equal and their random states are related. Two results are
  related when both diverge, both raise the same exception, or both return related
  values.
\<close>

definition rng_sim :: "('s \<Rightarrow> 't \<Rightarrow> bool) \<Rightarrow> 's random_state \<Rightarrow> 't random_state \<Rightarrow> bool" where
  "rng_sim R rng1 rng2 =
     (\<forall>s t. R s t \<longrightarrow>
        fst (rd_exp rng1 s) = fst (rd_exp rng2 t) \<and>
        R (snd (rd_exp rng1 s)) (snd (rd_exp rng2 t)) \<and>
        fst (rd_uniform rng1 s) = fst (rd_uniform rng2 t) \<and>
        R (snd (rd_uniform rng1 s)) (snd (rd_uniform rng2 t)))"

definition world_sim :: "('s \<Rightarrow> 't \<Rightarrow> bool) \<Rightarrow> 's world \<Rightarrow> 't world \<Rightarrow> bool" where
  "world_sim R w1 w2 =
     (widths (self w1) = widths (self w2) \<and> nat (ntune (self w1)) = nat (ntune (self w2)) \<and>
      evals w1 = evals w2 \<and> R (rd w1) (rd w2))"

abbreviation rel_result :: "('a \<Rightarrow> 'b \<Rightarrow> bool) \<Rightarrow> 'a result \<Rightarrow> 'b result \<Rightarrow> bool" where
  "rel_result A \<equiv> rel_option (rel_sum (=) A)"

section \<open>Properties\<close>

subsection \<open>Unfolding the loops\<close>

lemma step_out_left_stop:
  "\<not> fgt (logprob xs) logy \<Longrightarrow> step_out_left logprob logy width d xs n = Some (xs, Suc n)"
  by (subst step_out_left.simps) simp

lemma step_out_left_go:
  "fgt (logprob xs) logy \<Longrightarrow>
   step_out_left logprob logy width d xs n =
     step_out_left logprob logy width d (xs[d := xs ! d - width]) (Suc n)"
  by (subst step_out_left.simps) simp

lemma step_out_right_stop:
  "\<not> fgt (logprob xs) logy \<Longrightarrow> step_out_right logprob logy width d xs n = Some (xs, Suc n)"
  by (subst step_out_right.simps) simp

lemma step_out_right_go:
  "fgt (logprob xs) logy \<Longrightarrow>
   step_out_right logprob logy width d xs n =
     step_out_right logprob logy width d (xs[d := xs ! d + width]) (Suc n)"
  by (subst step_out_right.simps) simp

lemma shrink_accept:
  "fgt (logprob (candidate rng d a b xs r)) logy \<Longrightarrow>
   shrink rng logprob logy d x_p a b xs r n =
     Some (candidate rng d a b xs r, logprob (candidate rng d a b xs r),
           snd (rd_uniform rng r), Suc n)"
  by (subst shrink.simps) simp

lemma shrink_reject_left:
  "\<not> fgt (logprob (candidate rng d a b xs r)) logy \<Longrightarrow>
   candidate rng d a b xs r ! d < x_p \<Longrightarrow>
   shrink rng logprob logy d x_p a b xs r n =
     shrink rng logprob logy d x_p (candidate rng d a b xs r ! d) b
       (candidate rng d a b xs r) (snd (rd_uniform rng r)) (Suc n)"
  by (subst shrink.simps) simp

lemma shrink_reject_right:
  "\<not> fgt (logprob (candidate rng d a b xs r)) logy \<Longrightarrow>
   \<not> candidate rng d a b xs r ! d < x_p \<Longrightarrow>
   shrink rng logprob logy d x_p a b xs r n =
     shrink rng logprob logy d x_p a (candidate rng d a b xs r ! d)
       (candidate rng d a b xs r) (snd (rd_uniform rng r)) (Suc n)"
  by (subst shrink.simps) simp

lemmas loop_eval = step_out_left_stop step_out_left_go step_out_right_stop step_out_right_go
  shrink_accept shrink_reject_left shrink_reject_right

subsection \<open>What the loops and one elementary step guarantee\<close>

lemma step_out_left_post:
  assumes "step_out_left logprob logy width d xs n = Some res"
  shows "length (fst res) = length xs \<and> (\<forall>j. j \<noteq> d \<longrightarrow> fst res ! j = xs ! j) \<and>
         \<not> fgt (logprob (fst res)) logy \<and> n < snd res"
  using assms
proof (induction rule: step_out_left.raw_induct[rotated 1, consumes 1])
  case (1 sol logprob logy width d xs n res)
  show ?case
  proof (cases "fgt (logprob xs) logy")
    case True
    with 1(2) have "sol logprob logy width d (xs[d := xs ! d - width]) (Suc n) = Some res" by simp
    from 1(1)[OF this] show ?thesis by auto
  next
    case False
    with 1(2) show ?thesis by auto
  qed
qed

lemma step_out_right_post:
  assumes "step_out_right logprob logy width d xs n = Some res"
  shows "length (fst res) = length xs \<and> (\<forall>j. j \<noteq> d \<longrightarrow> fst res ! j = xs ! j) \<and>
         \<not> fgt (logprob (fst res)) logy \<and> n < snd res"
  using assms
proof (induction rule: step_out_right.raw_induct[rotated 1, consumes 1])
  case (1 sor logprob logy width d xs n res)
  show ?case
  proof (cases "fgt (logprob xs) logy")
    case True
    with 1(2) have "sor logprob logy width d (xs[d := xs ! d + width]) (Suc n) = Some res" by simp
    from 1(1)[OF this] show ?thesis by auto
  next
    case False
    with 1(2) show ?thesis by auto
  qed
qed

lemma candidate_frame:
  "length (candidate rng d a b xs r) = length xs"
  "j \<noteq> d \<Longrightarrow> candidate rng d a b xs r ! j = xs ! j"
  by (simp_all add: candidate_def)

lemma shrink_post:
  assumes "shrink rng logprob logy d x_p a b xs r n = Some res"
  shows "length (fst res) = length xs \<and> (\<forall>j. j \<noteq> d \<longrightarrow> fst res ! j = xs ! j) \<and>
         fst (snd res) = logprob (fst res) \<and> fgt (logprob (fst res)) logy \<and>
         n < snd (snd (snd res))"
  using assms
proof (induction rule: shrink.raw_induct[rotated 1, consumes 1])
  case (1 sh rng logprob logy d x_p a b xs r n res)
  let ?c = "candidate rng d a b xs r"
  show ?case
  proof (cases "fgt (logprob ?c) logy")
    case True
    with 1(2) show ?thesis by (auto simp: candidate_frame)
  next
    case False
    show ?thesis
    proof (cases "?c ! d < x_p")
      case True
      with False 1(2)
      have "sh rng logprob logy d x_p (?c ! d) b ?c (snd (rd_uniform rng r)) (Suc n) = Some res"
        by simp
      from 1(1)[OF this] show ?thesis by (auto simp: candidate_frame)
    next
      case nl: False
      with False 1(2)
      have "sh rng logprob logy d x_p a (?c ! d) ?c (snd (rd_uniform rng r)) (Suc n) = Some res"
        by simp
      from 1(1)[OF this] show ?thesis by (auto simp: candidate_frame)
    qed
  qed
qed

lemma bindE_Inr:
  "bindE m f = Some (Inr v) \<longleftrightarrow> (\<exists>u. m = Some (Inr u) \<and> f u = Some (Inr v))"
  by (auto simp: bindE_def split: option.splits sum.splits)

lemma bindE_simps:
  "bindE None f = None"
  "bindE (Some (Inl e)) f = Some (Inl e)"
  "bindE (Some (Inr u)) f = f u"
  by (simp_all add: bindE_def)

lemma elem_step_Inr:
  assumes "elem_step rng logprob x x_prob d w = Some (Inr (fr, w'))"
  obtains ws xa n1 xb n2 x' p' r3 n3 where
    "widths (self w) = Some ws" "d < length ws"
    "step_out_left logprob (slice_height x_prob (fst (rd_exp rng (rd w)))) (ws ! d) d
       (x[d := fst (trial_interval x d (fst (rd_uniform rng (snd (rd_exp rng (rd w))))) (ws ! d))])
       (evals w) = Some (xa, n1)"
    "step_out_right logprob (slice_height x_prob (fst (rd_exp rng (rd w)))) (ws ! d) d
       (xa[d := snd (trial_interval x d (fst (rd_uniform rng (snd (rd_exp rng (rd w))))) (ws ! d))])
       n1 = Some (xb, n2)"
    "shrink rng logprob (slice_height x_prob (fst (rd_exp rng (rd w)))) d (x ! d) (xa ! d) (xb ! d) xb
       (snd (rd_uniform rng (snd (rd_exp rng (rd w))))) n2 = Some (x', p', r3, n3)"
    "fr = \<lparr>fr_x = x', fr_x_prob = p', fr_d = d,
           fr_logy = slice_height x_prob (fst (rd_exp rng (rd w)))\<rparr>"
    "w' = w\<lparr>rd := r3, evals := n3\<rparr>"
  using assms unfolding elem_step_def
  by (auto simp: Let_def split_beta split: option.splits if_splits)

lemma elem_step_post:
  assumes "elem_step rng logprob x x_prob d w = Some (Inr (fr, w'))"
  shows "fr_logy fr = slice_height x_prob (fst (rd_exp rng (rd w)))"
    and "fr_x_prob fr = logprob (fr_x fr)"
    and "fgt (logprob (fr_x fr)) (fr_logy fr)"
    and "length (fr_x fr) = length x"
    and "\<forall>j. j \<noteq> d \<longrightarrow> fr_x fr ! j = x ! j"
    and "fr_d fr = d"
    and "self w' = self w"
    and "evals w < evals w'"
proof -
  from assms obtain ws xa n1 xb n2 x' p' r3 n3 where
    l: "step_out_left logprob (slice_height x_prob (fst (rd_exp rng (rd w)))) (ws ! d) d
       (x[d := fst (trial_interval x d (fst (rd_uniform rng (snd (rd_exp rng (rd w))))) (ws ! d))])
       (evals w) = Some (xa, n1)"
    and r: "step_out_right logprob (slice_height x_prob (fst (rd_exp rng (rd w)))) (ws ! d) d
       (xa[d := snd (trial_interval x d (fst (rd_uniform rng (snd (rd_exp rng (rd w))))) (ws ! d))])
       n1 = Some (xb, n2)"
    and s: "shrink rng logprob (slice_height x_prob (fst (rd_exp rng (rd w)))) d (x ! d) (xa ! d) (xb ! d) xb
       (snd (rd_uniform rng (snd (rd_exp rng (rd w))))) n2 = Some (x', p', r3, n3)"
    and fr: "fr = \<lparr>fr_x = x', fr_x_prob = p', fr_d = d,
           fr_logy = slice_height x_prob (fst (rd_exp rng (rd w)))\<rparr>"
    and w': "w' = w\<lparr>rd := r3, evals := n3\<rparr>"
    by (rule elem_step_Inr)
  note pl = step_out_left_post[OF l, simplified]
  note pr = step_out_right_post[OF r, simplified]
  note ps = shrink_post[OF s, simplified]
  show "fr_logy fr = slice_height x_prob (fst (rd_exp rng (rd w)))" by (simp add: fr)
  show "fr_x_prob fr = logprob (fr_x fr)" using ps by (simp add: fr)
  show "fgt (logprob (fr_x fr)) (fr_logy fr)" using ps by (simp add: fr)
  show "length (fr_x fr) = length x" using pl pr ps by (simp add: fr)
  show "\<forall>j. j \<noteq> d \<longrightarrow> fr_x fr ! j = x ! j" using pl pr ps by (simp add: fr)
  show "fr_d fr = d" by (simp add: fr)
  show "self w' = self w" by (simp add: w')
  show "evals w < evals w'" using pl pr ps by (simp add: w')
qed

subsection \<open>What a pull on the generators returns\<close>

lemma sample_inner_next_Inr:
  assumes "sample_inner_next rng logprob init g w = Some (Inr (row, g', w'))"
  obtains fr x x_prob d w0 where
    "elem_step rng logprob x x_prob d w0 = Some (Inr (fr, w'))"
    "g' = Suspended fr" "row = fr_x fr" "self w0 = self w" "rd w0 = rd w" "evals w \<le> evals w0"
    "length init \<noteq> 0"
    "(g = NotStarted \<and> x = init \<and> x_prob = logprob init \<and> d = 0 \<and> evals w0 = Suc (evals w)) \<or>
     (\<exists>fr0. g = Suspended fr0 \<and> x = fr_x fr0 \<and> x_prob = fr_x_prob fr0 \<and> w0 = w \<and>
            d = (if Suc (fr_d fr0) < length init then Suc (fr_d fr0) else 0))"
proof (cases g)
  case NotStarted
  with assms obtain fr where
    "elem_step rng logprob init (logprob init) 0 (w\<lparr>evals := Suc (evals w)\<rparr>) = Some (Inr (fr, w'))"
    "g' = Suspended fr" "row = fr_x fr" "length init \<noteq> 0"
    by (auto simp: sample_inner_next_def bindE_Inr split: if_splits)
  with NotStarted show ?thesis by (intro that[of init "logprob init" 0 "w\<lparr>evals := Suc (evals w)\<rparr>" fr]) auto
next
  case (Suspended fr0)
  with assms obtain fr where
    "elem_step rng logprob (fr_x fr0) (fr_x_prob fr0)
       (if Suc (fr_d fr0) < length init then Suc (fr_d fr0) else 0) w = Some (Inr (fr, w'))"
    "g' = Suspended fr" "row = fr_x fr" "length init \<noteq> 0"
    by (auto simp: sample_inner_next_def bindE_Inr Let_def split: if_splits)
  with Suspended show ?thesis
    by (intro that[of "fr_x fr0" "fr_x_prob fr0"
          "if Suc (fr_d fr0) < length init then Suc (fr_d fr0) else 0" w fr]) auto
qed

lemma yield_next_Inr:
  "yield_next rng logprob init state w = Some (Inr (row, g', w')) \<longleftrightarrow>
   (\<exists>state'. sample_inner_next rng logprob init state w = Some (Inr (row, state', w')) \<and>
             g' = Sampling state')"
  by (auto simp: yield_next_def bindE_Inr)

lemma sample_next_Inr:
  assumes "sample_next rng logprob init g w = Some (Inr (row, g', w'))"
  obtains state0 w0 where "yield_next rng logprob init state0 w0 = Some (Inr (row, g', w'))"
  using assms
  by (auto simp: sample_next_def Let_def bindE_Inr split: gen.splits if_splits)

lemmas eval_defs = run_def run_body_def sample_next_def yield_next_def sample_inner_next_def
  default_widths_def bindE_simps elem_step_def world0_def ComponentWiseSlice_def
  slice_height_def trial_interval_def candidate_def tune_def tune_body_def tune_width_def
  loop_eval Let_def

subsection \<open>Acceptance above the slice height\<close>

text \<open>
  C1. Every state emitted by the sampling sequence of \<^verbatim>\<open>ComponentWiseSlice.sample\<close>
  is the accepted \<open>x\<close> of an elementary step; \<open>logy\<close> of that step is the slice
  height computed at its start from the cached log-density and the exponential draw;
  and the log-density at the emitted state strictly exceeds that \<open>logy\<close>.
\<close>

theorem emitted_state_above_slice_height:
  assumes "sample_next rng logprob init g w = Some (Inr (row, g', w'))"
  shows "\<exists>fr x x_prob d w0.
           elem_step rng logprob x x_prob d w0 = Some (Inr (fr, w')) \<and>
           g' = Sampling (Suspended fr) \<and> row = fr_x fr \<and>
           fr_logy fr = slice_height x_prob (fst (rd_exp rng (rd w0))) \<and>
           fgt (logprob row) (fr_logy fr)"
proof -
  from assms obtain state0 w0 where
    "yield_next rng logprob init state0 w0 = Some (Inr (row, g', w'))"
    by (rule sample_next_Inr)
  then obtain state' where
    i: "sample_inner_next rng logprob init state0 w0 = Some (Inr (row, state', w'))"
    and g': "g' = Sampling state'"
    by (auto simp: yield_next_Inr)
  from i obtain fr x x_prob d w1 where
    e: "elem_step rng logprob x x_prob d w1 = Some (Inr (fr, w'))"
    and "state' = Suspended fr" "row = fr_x fr"
    by (rule sample_inner_next_Inr)
  with g' elem_step_post(1,3)[OF e] show ?thesis by blast
qed

theorem emitted_state_above_slice_height_witness:
  "sample_next rng_const lp_normal1 [0] Created (world0 (Some [1]) 0 ()) =
     Some (Inr ([0],
       Sampling (Suspended \<lparr>fr_x = [0], fr_x_prob = Fin 0, fr_d = 0,
                             fr_logy = Fin (- (1000000001 / 1000000000))\<rparr>),
       \<lparr>self = \<lparr>widths = Some [1], ntune = 0\<rparr>, rd = (), evals = 6\<rparr>)) \<and>
   (\<exists>fr x x_prob d w0.
      elem_step rng_const lp_normal1 x x_prob d w0 =
        Some (Inr (fr, \<lparr>self = \<lparr>widths = Some [1], ntune = 0\<rparr>, rd = (), evals = 6\<rparr>)) \<and>
      [0] = fr_x fr \<and>
      fr_logy fr = slice_height x_prob (fst (rd_exp rng_const (rd w0))) \<and>
      fgt (lp_normal1 [0]) (fr_logy fr))"
proof -
  have e: "sample_next rng_const lp_normal1 [0] Created (world0 (Some [1]) 0 ()) =
     Some (Inr ([0],
       Sampling (Suspended \<lparr>fr_x = [0], fr_x_prob = Fin 0, fr_d = 0,
                             fr_logy = Fin (- (1000000001 / 1000000000))\<rparr>),
       \<lparr>self = \<lparr>widths = Some [1], ntune = 0\<rparr>, rd = (), evals = 6\<rparr>))"
    by (simp add: eval_defs rng_const_def lp_normal1_def)
  from emitted_state_above_slice_height[OF e] e show ?thesis by blast
qed

subsection \<open>Slice height and trial interval\<close>

text \<open>
  C2. In an elementary step on coordinate \<open>d\<close>, with \<open>e\<close> the exponential draw and
  \<open>u\<close> the uniform draw that follows it, the slice height is
  \<open>logy = x_prob - e - 1e-9\<close>, and the step-out loops start from the interval
  \<open>a = x[d] - u * width[d]\<close>, \<open>b = a + width[d]\<close>. The interval has length
  \<open>width[d]\<close>, and it covers the current coordinate (\<open>a \<le> x[d] < b\<close>) when
  \<open>0 \<le> u < 1\<close> and the width is positive.
\<close>

theorem slice_height_and_trial_interval:
  assumes "elem_step rng logprob x x_prob d w = Some (Inr (fr, w'))"
    and "widths (self w) = Some ws"
    and "e = fst (rd_exp rng (rd w))"
    and "u = fst (rd_uniform rng (snd (rd_exp rng (rd w))))"
    and "a = x ! d - u * ws ! d"
    and "b = a + ws ! d"
  shows "fr_logy fr = fsub (fsub x_prob e) (1 / 10 ^ 9) \<and>
         trial_interval x d u (ws ! d) = (a, b) \<and>
         (\<exists>xa n1. step_out_left logprob (fr_logy fr) (ws ! d) d (x[d := a]) (evals w) = Some (xa, n1) \<and>
            (\<exists>xb n2. step_out_right logprob (fr_logy fr) (ws ! d) d (xa[d := b]) n1 = Some (xb, n2))) \<and>
         b - a = ws ! d \<and>
         (0 \<le> u \<and> u < 1 \<and> 0 < ws ! d \<longrightarrow> a \<le> x ! d \<and> x ! d < b)"
proof -
  from assms(1) obtain ws' xa n1 xb n2 where
    ws': "widths (self w) = Some ws'"
    and l: "step_out_left logprob (slice_height x_prob (fst (rd_exp rng (rd w)))) (ws' ! d) d
       (x[d := fst (trial_interval x d (fst (rd_uniform rng (snd (rd_exp rng (rd w))))) (ws' ! d))])
       (evals w) = Some (xa, n1)"
    and r: "step_out_right logprob (slice_height x_prob (fst (rd_exp rng (rd w)))) (ws' ! d) d
       (xa[d := snd (trial_interval x d (fst (rd_uniform rng (snd (rd_exp rng (rd w))))) (ws' ! d))])
       n1 = Some (xb, n2)"
    by (rule elem_step_Inr)
  from ws' assms(2) have eq: "ws' = ws" by simp
  have h: "fr_logy fr = slice_height x_prob e"
    using elem_step_post(1)[OF assms(1)] assms(3) by simp
  have ti: "trial_interval x d u (ws ! d) = (a, b)"
    using assms(5,6) by (simp add: trial_interval_def)
  have lo: "step_out_left logprob (fr_logy fr) (ws ! d) d (x[d := a]) (evals w) = Some (xa, n1)"
    using l ti h eq assms(3,4) by simp
  have ro: "step_out_right logprob (fr_logy fr) (ws ! d) d (xa[d := b]) n1 = Some (xb, n2)"
    using r ti h eq assms(3,4) by simp
  have len: "b - a = ws ! d" using assms(6) by simp
  have cov: "0 \<le> u \<and> u < 1 \<and> 0 < ws ! d \<longrightarrow> a \<le> x ! d \<and> x ! d < b"
  proof
    assume p: "0 \<le> u \<and> u < 1 \<and> 0 < ws ! d"
    then have "0 \<le> u * ws ! d" by simp
    moreover from p have "u * ws ! d < 1 * ws ! d" by (intro mult_strict_right_mono) simp_all
    ultimately show "a \<le> x ! d \<and> x ! d < b" using assms(5,6) by simp
  qed
  from h ti lo ro len cov show ?thesis by (auto simp: slice_height_def)
qed

theorem slice_height_and_trial_interval_witness:
  "fr_logy \<lparr>fr_x = [0], fr_x_prob = Fin 0, fr_d = 0, fr_logy = Fin (- (1000000001 / 1000000000))\<rparr>
     = fsub (fsub (Fin 0) 1) (1 / 10 ^ 9) \<and>
   trial_interval [0] 0 (1 / 2) 1 = (- (1 / 2), 1 / 2) \<and>
   (1 / 2 :: real) - (- (1 / 2)) = 1 \<and> - (1 / 2) \<le> (0::real) \<and> (0::real) < 1 / 2"
proof -
  have e: "elem_step rng_const lp_normal1 [0] (Fin 0) 0 (world0 (Some [1]) 0 ()) =
    Some (Inr (\<lparr>fr_x = [0], fr_x_prob = Fin 0, fr_d = 0,
                  fr_logy = Fin (- (1000000001 / 1000000000))\<rparr>,
               \<lparr>self = \<lparr>widths = Some [1], ntune = 0\<rparr>, rd = (), evals = 5\<rparr>))"
    by (simp add: eval_defs rng_const_def lp_normal1_def)
  have ws: "widths (self (world0 (Some [1]) 0 ())) = Some [1]"
    by (simp add: world0_def ComponentWiseSlice_def)
  have ev: "(1::real) = fst (rd_exp rng_const (rd (world0 (Some [1]) 0 ())))"
    by (simp add: rng_const_def)
  have uv: "(1 / 2 :: real) = fst (rd_uniform rng_const (snd (rd_exp rng_const (rd (world0 (Some [1]) 0 ())))))"
    by (simp add: rng_const_def)
  have av: "- (1 / 2 :: real) = [0] ! 0 - 1 / 2 * [1] ! 0" by simp
  have bv: "(1 / 2 :: real) = - (1 / 2) + [1] ! 0" by simp
  from slice_height_and_trial_interval[OF e ws ev uv av bv] show ?thesis by simp
qed

subsection \<open>Non-finite log-densities\<close>

text \<open>
  C6. A log-density that is NaN or minus infinity never compares greater than
  \<open>logy\<close>. The loops have no case of their own for such a value: a point that is
  not above \<open>logy\<close>, for whatever reason, ends a step-out loop at that point and
  makes the shrinkage loop move the end of the interval on the candidate's side; a
  NaN or minus infinity does exactly that.
\<close>

theorem non_finite_is_ordinary_rejection:
  "(p = NaN \<or> p = NInf \<longrightarrow> \<not> fgt p logy) \<and>
   (\<not> fgt (logprob xs) logy \<longrightarrow>
      step_out_left logprob logy width d xs n = Some (xs, Suc n) \<and>
      step_out_right logprob logy width d xs n = Some (xs, Suc n)) \<and>
   (logprob xs = NaN \<or> logprob xs = NInf \<longrightarrow>
      step_out_left logprob logy width d xs n = Some (xs, Suc n) \<and>
      step_out_right logprob logy width d xs n = Some (xs, Suc n)) \<and>
   (\<not> fgt (logprob (candidate rng d a b xs r)) logy \<longrightarrow>
      shrink rng logprob logy d x_p a b xs r n =
        (if candidate rng d a b xs r ! d < x_p
         then shrink rng logprob logy d x_p (candidate rng d a b xs r ! d) b
                (candidate rng d a b xs r) (snd (rd_uniform rng r)) (Suc n)
         else shrink rng logprob logy d x_p a (candidate rng d a b xs r ! d)
                (candidate rng d a b xs r) (snd (rd_uniform rng r)) (Suc n))) \<and>
   (logprob (candidate rng d a b xs r) = NaN \<or> logprob (candidate rng d a b xs r) = NInf \<longrightarrow>
      shrink rng logprob logy d x_p a b xs r n =
        (if candidate rng d a b xs r ! d < x_p
         then shrink rng logprob logy d x_p (candidate rng d a b xs r ! d) b
                (candidate rng d a b xs r) (snd (rd_uniform rng r)) (Suc n)
         else shrink rng logprob logy d x_p a (candidate rng d a b xs r ! d)
                (candidate rng d a b xs r) (snd (rd_uniform rng r)) (Suc n)))"
proof -
  have nf: "q = NaN \<or> q = NInf \<Longrightarrow> \<not> fgt q logy" for q by auto
  have so: "\<not> fgt (logprob xs) logy \<Longrightarrow>
      step_out_left logprob logy width d xs n = Some (xs, Suc n) \<and>
      step_out_right logprob logy width d xs n = Some (xs, Suc n)"
    by (simp add: step_out_left_stop step_out_right_stop)
  have sh: "\<not> fgt (logprob (candidate rng d a b xs r)) logy \<Longrightarrow>
      shrink rng logprob logy d x_p a b xs r n =
        (if candidate rng d a b xs r ! d < x_p
         then shrink rng logprob logy d x_p (candidate rng d a b xs r ! d) b
                (candidate rng d a b xs r) (snd (rd_uniform rng r)) (Suc n)
         else shrink rng logprob logy d x_p a (candidate rng d a b xs r ! d)
                (candidate rng d a b xs r) (snd (rd_uniform rng r)) (Suc n))"
    by (subst shrink.simps) simp
  show ?thesis
    using nf[of p] so nf[of "logprob xs"] sh nf[of "logprob (candidate rng d a b xs r)"]
    by blast
qed

theorem non_finite_is_ordinary_rejection_witness:
  "\<not> fgt NInf (Fin (- 1)) \<and>
   lp_box [2] = NInf \<and>
   step_out_left lp_box (Fin (- 1)) 3 0 [2] 0 = Some ([2], 1) \<and>
   step_out_right lp_box (Fin (- 1)) 3 0 [2] 0 = Some ([2], 1) \<and>
   candidate rng_alt 0 (- 2) 2 [0] True = [3 / 2] \<and>
   shrink rng_alt lp_box (Fin (- 1)) 0 0 (- 2) 2 [0] True 0 =
     shrink rng_alt lp_box (Fin (- 1)) 0 0 (- 2) (3 / 2) [3 / 2] False 1"
proof -
  have b: "lp_box [2] = NInf" by (simp add: lp_box_def)
  have c: "candidate rng_alt 0 (- 2) 2 [0] True = [3 / 2]"
    by (simp add: candidate_def rng_alt_def)
  have cb: "lp_box (candidate rng_alt 0 (- 2) 2 [0] True) = NInf"
    by (simp add: c lp_box_def)
  from non_finite_is_ordinary_rejection
         [of NInf "Fin (- 1)" lp_box "[2]" 3 0 0 rng_alt "- 2" 2 True 0]
       non_finite_is_ordinary_rejection
         [of NInf "Fin (- 1)" lp_box "[0]" 3 0 0 rng_alt "- 2" 2 True 0]
       b c cb
  show ?thesis by (simp add: rng_alt_def)
qed

subsection \<open>Positive widths\<close>

lemma for_loop_inv:
  assumes "\<And>v s s'. v \<in> set vs \<Longrightarrow> I s \<Longrightarrow> body v s = Some (Inr s') \<Longrightarrow> I s'"
    and "I s" and "for_loop vs body s = Some (Inr s')"
  shows "I s'"
  using assms
proof (induction vs arbitrary: s)
  case Nil
  then show ?case by simp
next
  case (Cons v vs)
  from Cons.prems(3) obtain s1 where
    b: "body v s = Some (Inr s1)" and r: "for_loop vs body s1 = Some (Inr s')"
    by (auto simp: bindE_Inr)
  have "I s1" using Cons.prems(1)[OF _ Cons.prems(2) b] by simp
  moreover have "\<And>u t t'. u \<in> set vs \<Longrightarrow> I t \<Longrightarrow> body u t = Some (Inr t') \<Longrightarrow> I t'"
    using Cons.prems(1) by auto
  ultimately show ?case using r Cons.IH by blast
qed

lemma sample_inner_next_self:
  assumes "sample_inner_next rng logprob init g w = Some (Inr (row, g', w'))"
  shows "self w' = self w"
proof -
  from assms obtain fr x x_prob d w0 where
    e: "elem_step rng logprob x x_prob d w0 = Some (Inr (fr, w'))" and "self w0 = self w"
    by (rule sample_inner_next_Inr)
  with elem_step_post(7)[OF e] show ?thesis by simp
qed

lemma yield_next_self:
  "yield_next rng logprob init state w = Some (Inr (row, g', w')) \<Longrightarrow> self w' = self w"
  by (auto simp: yield_next_Inr dest: sample_inner_next_self)

lemma tune_width_pos:
  assumes "\<forall>v\<in>set ws. (0::real) < v"
  shows "\<forall>v\<in>set (tune_width ws d cur prev). 0 < v"
proof (cases "d < length ws")
  case True
  then have "0 < ws ! d" using assms by simp
  then have "0 < 0.1 * \<bar>cur ! d - prev ! d\<bar> + 0.9 * ws ! d" by (simp add: add_nonneg_pos)
  with assms True show ?thesis
    unfolding tune_width_def by (auto simp: set_conv_nth nth_list_update)
next
  case False
  then have "tune_width ws d cur prev = ws"
    using list_update_beyond[of ws d] by (simp add: tune_width_def)
  with assms show ?thesis by simp
qed

lemma tune_width_length: "length (tune_width ws d cur prev) = length ws"
  by (simp add: tune_width_def)

lemma tune_body_pos:
  assumes "tune_body rng logprob init d s = Some (Inr s')" "pos_widths k (snd (snd s))"
  shows "pos_widths k (snd (snd s'))"
proof -
  obtain prev state w where s: "s = (prev, state, w)" by (cases s) auto
  from assms(1) s obtain cur state' w1 ws where
    i: "sample_inner_next rng logprob init state w = Some (Inr (cur, state', w1))"
    and ws: "widths (self w1) = Some ws"
    and s': "s' = (cur, state', w1\<lparr>self := (self w1)\<lparr>widths := Some (tune_width ws d cur prev)\<rparr>\<rparr>)"
    by (auto simp: tune_body_def bindE_Inr split: option.splits if_splits)
  from sample_inner_next_self[OF i] assms(2) s ws
  have "length ws = k" "\<forall>v\<in>set ws. 0 < v" by (auto simp: pos_widths_def)
  with s' tune_width_pos[of ws d cur prev] show ?thesis
    by (simp add: pos_widths_def tune_width_length)
qed

lemma tune_pos:
  assumes "tune rng logprob init s = Some (Inr s')" "pos_widths k (snd (snd s))"
  shows "pos_widths k (snd (snd s'))"
proof -
  obtain prev state w where s: "s = (prev, state, w)" by (cases s) auto
  have inner: "pos_widths k (snd (snd t'))"
    if "pos_widths k (snd (snd t))"
      and "for_loop [0 ..< length init] (tune_body rng logprob init) t = Some (Inr t')" for t t'
    using that(2)
    by (rule for_loop_inv[where I = "\<lambda>t. pos_widths k (snd (snd t))", rotated 2])
       (auto intro: tune_body_pos that(1))
  from assms(1) s
  have "for_loop [0 ..< nat (ntune (self w))]
          (\<lambda>i. for_loop [0 ..< length init] (tune_body rng logprob init)) s = Some (Inr s')"
    by (simp add: tune_def)
  then show ?thesis
    by (rule for_loop_inv[where I = "\<lambda>t. pos_widths k (snd (snd t))", rotated 2])
       (auto intro: inner assms(2))
qed

lemma sample_next_pos:
  assumes "sample_next rng logprob init g w = Some (Inr (row, g', w'))" "pos_widths k w"
  shows "pos_widths k w'"
proof -
  have dw: "default_widths init w = w" using assms(2) by (auto simp: default_widths_def pos_widths_def)
  have y: "pos_widths k w2 \<Longrightarrow> yield_next rng logprob init st w2 = Some (Inr (row, g', w')) \<Longrightarrow>
           pos_widths k w'" for st w2
    using yield_next_self[of rng logprob init st w2 row g' w'] by (simp add: pos_widths_def)
  show ?thesis
  proof (cases g)
    case (Sampling st)
    with assms show ?thesis by (auto simp: sample_next_def intro: y)
  next
    case Created
    show ?thesis
    proof (cases "0 < ntune (self w)")
      case False
      with Created assms dw show ?thesis by (auto simp: sample_next_def intro: y)
    next
      case True
      with Created assms(1) dw obtain prev st w2 where
        t: "tune rng logprob init (init, NotStarted, w) = Some (Inr (prev, st, w2))"
        and yn: "yield_next rng logprob init st w2 = Some (Inr (row, g', w'))"
        by (auto simp: sample_next_def bindE_Inr)
      from tune_pos[OF t] assms(2) have "pos_widths k w2" by simp
      then show ?thesis using yn by (rule y)
    qed
  qed
qed

text \<open>
  C7. The update \<open>widths[d] = 0.1 * |delta| + 0.9 * widths[d]\<close> keeps every entry of
  a positive width vector positive, through any finite sequence of updates; and so
  the widths of the sampler are positive after every pull on \<^verbatim>\<open>sample\<close>, tuning
  included, when they were positive before.
\<close>

theorem widths_stay_positive:
  assumes "\<forall>v\<in>set ws. 0 < v"
  shows "(\<forall>v\<in>set (foldl (\<lambda>ws (d, cur, prev). tune_width ws d cur prev) ws ups). 0 < v) \<and>
         (widths (self w) = Some ws \<and>
          sample_next rng logprob init g w = Some (Inr (row, g', w')) \<longrightarrow>
            (\<exists>ws'. widths (self w') = Some ws' \<and> length ws' = length ws \<and> (\<forall>v\<in>set ws'. 0 < v)))"
proof
  show "\<forall>v\<in>set (foldl (\<lambda>ws (d, cur, prev). tune_width ws d cur prev) ws ups). 0 < v"
    using assms
  proof (induction ups arbitrary: ws)
    case Nil
    then show ?case by simp
  next
    case (Cons up ups)
    obtain d cur prev where up: "up = (d, cur, prev)" by (cases up) auto
    from Cons.prems have "\<forall>v\<in>set (tune_width ws d cur prev). 0 < v" by (rule tune_width_pos)
    from Cons.IH[OF this] up show ?case by simp
  qed
next
  show "widths (self w) = Some ws \<and>
          sample_next rng logprob init g w = Some (Inr (row, g', w')) \<longrightarrow>
            (\<exists>ws'. widths (self w') = Some ws' \<and> length ws' = length ws \<and> (\<forall>v\<in>set ws'. 0 < v))"
  proof
    assume a: "widths (self w) = Some ws \<and>
          sample_next rng logprob init g w = Some (Inr (row, g', w'))"
    with assms have "pos_widths (length ws) w" by (simp add: pos_widths_def)
    with a have "pos_widths (length ws) w'" by (auto intro: sample_next_pos)
    then show "\<exists>ws'. widths (self w') = Some ws' \<and> length ws' = length ws \<and> (\<forall>v\<in>set ws'. 0 < v)"
      by (simp add: pos_widths_def)
  qed
qed

theorem widths_stay_positive_witness:
  "list_all (\<lambda>v. 0 < v) [1::real] \<and>
   foldl (\<lambda>ws (d, cur, prev). tune_width ws d cur prev) [1] [(0, [2], [0]), (0, [2], [2])] = [99 / 100] \<and>
   list_all (\<lambda>v. 0 < v) [99 / 100 :: real] \<and>
   sample_next rng_const lp_normal1 [0] Created (world0 (Some [1]) 2 ()) =
     Some (Inr ([0],
       Sampling (Suspended \<lparr>fr_x = [0], fr_x_prob = Fin 0, fr_d = 0,
                             fr_logy = Fin (- (1000000001 / 1000000000))\<rparr>),
       \<lparr>self = \<lparr>widths = Some [81 / 100], ntune = 2\<rparr>, rd = (), evals = 20\<rparr>)) \<and>
   (\<exists>ws'. Some [81 / 100 :: real] = Some ws' \<and> length ws' = length [1::real] \<and> (\<forall>v\<in>set ws'. 0 < v))"
proof -
  have p: "\<forall>v\<in>set [1::real]. 0 < v" by simp
  have f: "foldl (\<lambda>ws (d, cur, prev). tune_width ws d cur prev) [1] [(0, [2], [0]), (0, [2], [2])]
             = [99 / 100]"
    by (simp add: tune_width_def)
  have w: "widths (self (world0 (Some [1]) 2 ())) = Some [1]"
    by (simp add: world0_def ComponentWiseSlice_def)
  have e: "sample_next rng_const lp_normal1 [0] Created (world0 (Some [1]) 2 ()) =
     Some (Inr ([0],
       Sampling (Suspended \<lparr>fr_x = [0], fr_x_prob = Fin 0, fr_d = 0,
                             fr_logy = Fin (- (1000000001 / 1000000000))\<rparr>),
       \<lparr>self = \<lparr>widths = Some [81 / 100], ntune = 2\<rparr>, rd = (), evals = 20\<rparr>))"
    by (simp add: eval_defs rng_const_def lp_normal1_def upt_rec)
  from widths_stay_positive[OF p, of "[(0, [2], [0]), (0, [2], [2])]"
         "world0 (Some [1]) 2 ()" rng_const lp_normal1 "[0]" Created] p f w e
  show ?thesis by auto
qed

subsection \<open>The driver pulls a prefix of the sequence\<close>

lemma bindE_assoc: "bindE (bindE m f) h = bindE m (\<lambda>v. bindE (f v) h)"
  by (simp add: bindE_def split: option.splits sum.splits)

lemma bindE_cong_Inr:
  "(\<And>v. m = Some (Inr v) \<Longrightarrow> f v = h v) \<Longrightarrow> bindE m f = bindE m h"
  by (simp add: bindE_def split: option.splits sum.splits)

lemma run_loop_pull_seq:
  assumes "i + k \<le> length samples"
  shows "for_loop [i ..< i + k] (run_body rng logprob init) (samples, g, w) =
           bindE (pull_seq k rng logprob init g w)
             (\<lambda>(rows, g', w'). Some (Inr (take i samples @ rows @ drop (i + k) samples, g', w')))"
  using assms
proof (induction k arbitrary: i samples g w)
  case 0
  then show ?case by (simp add: bindE_simps)
next
  case (Suc k)
  define F where "F = for_loop [Suc i ..< Suc i + k] (run_body rng logprob init)"
  have u: "[i ..< i + Suc k] = i # [Suc i ..< Suc i + k]" by (simp add: upt_rec)
  have step: "F (samples[i := row], g', w') =
      bindE (pull_seq k rng logprob init g' w')
        (\<lambda>(rows, g'', w''). Some (Inr (take i samples @ (row # rows) @ drop (i + Suc k) samples, g'', w'')))"
    for row g' w'
  proof -
    have l: "Suc i + k \<le> length (samples[i := row])" using Suc.prems by simp
    have t: "take (Suc i) (samples[i := row]) = take i samples @ [row]"
      using Suc.prems by (simp add: take_Suc_conv_app_nth)
    have d: "drop (Suc i + k) (samples[i := row]) = drop (i + Suc k) samples" by simp
    show ?thesis unfolding F_def Suc.IH[OF l] t d by simp
  qed
  have "for_loop [i ..< i + Suc k] (run_body rng logprob init) (samples, g, w) =
          bindE (run_body rng logprob init i (samples, g, w)) F"
    unfolding u F_def by (simp only: for_loop.simps)
  also have "\<dots> = bindE (sample_next rng logprob init g w)
                     (\<lambda>(row, g', w'). F (samples[i := row], g', w'))"
    by (simp add: run_body_def bindE_assoc bindE_simps split_def)
  also have "\<dots> = bindE (pull_seq (Suc k) rng logprob init g w)
             (\<lambda>(rows, g', w'). Some (Inr (take i samples @ rows @ drop (i + Suc k) samples, g', w')))"
    by (simp add: step bindE_assoc bindE_simps split_def)
  finally show ?case .
qed

lemma sample_inner_next_ok:
  assumes "sample_inner_next rng logprob init st w = Some (Inr (row, st', w'))" "inner_ok init st"
  shows "inner_ok init st' \<and> length row = length init"
proof -
  from assms(1) obtain fr x x_prob d w0 where
    e: "elem_step rng logprob x x_prob d w0 = Some (Inr (fr, w'))"
    and st': "st' = Suspended fr" and row: "row = fr_x fr" and n: "length init \<noteq> 0"
    and c: "(st = NotStarted \<and> x = init \<and> x_prob = logprob init \<and> d = 0 \<and> evals w0 = Suc (evals w)) \<or>
     (\<exists>fr0. st = Suspended fr0 \<and> x = fr_x fr0 \<and> x_prob = fr_x_prob fr0 \<and> w0 = w \<and>
            d = (if Suc (fr_d fr0) < length init then Suc (fr_d fr0) else 0))"
    by (rule sample_inner_next_Inr)
  from c assms(2) n have "length x = length init \<and> d < length init"
    by (auto simp: inner_ok_def)
  with elem_step_post(4,6)[OF e] st' row show ?thesis by (simp add: inner_ok_def)
qed

lemma tune_body_ok:
  assumes "tune_body rng logprob init d s = Some (Inr s')" "inner_ok init (fst (snd s))"
  shows "inner_ok init (fst (snd s'))"
proof -
  obtain prev state w where s: "s = (prev, state, w)" by (cases s) auto
  from assms(1) s obtain cur state' w1 where
    i: "sample_inner_next rng logprob init state w = Some (Inr (cur, state', w1))"
    and s': "fst (snd s') = state'"
    by (auto simp: tune_body_def bindE_Inr split: option.splits if_splits)
  from sample_inner_next_ok[OF i] assms(2) s s' show ?thesis by simp
qed

lemma tune_ok:
  assumes "tune rng logprob init s = Some (Inr s')" "inner_ok init (fst (snd s))"
  shows "inner_ok init (fst (snd s'))"
proof -
  obtain prev state w where s: "s = (prev, state, w)" by (cases s) auto
  have inner: "inner_ok init (fst (snd t'))"
    if "inner_ok init (fst (snd t))"
      and "for_loop [0 ..< length init] (tune_body rng logprob init) t = Some (Inr t')" for t t'
    using that(2)
    by (rule for_loop_inv[where I = "\<lambda>t. inner_ok init (fst (snd t))", rotated 2])
       (auto intro: tune_body_ok that(1))
  from assms(1) s
  have "for_loop [0 ..< nat (ntune (self w))]
          (\<lambda>i. for_loop [0 ..< length init] (tune_body rng logprob init)) s = Some (Inr s')"
    by (simp add: tune_def)
  then show ?thesis
    by (rule for_loop_inv[where I = "\<lambda>t. inner_ok init (fst (snd t))", rotated 2])
       (auto intro: inner assms(2))
qed

lemma sample_next_ok:
  assumes "sample_next rng logprob init g w = Some (Inr (row, g', w'))" "gen_ok init g"
  shows "gen_ok init g' \<and> length row = length init"
proof -
  have y: "inner_ok init st \<Longrightarrow> yield_next rng logprob init st w2 = Some (Inr (row, g', w')) \<Longrightarrow>
           gen_ok init g' \<and> length row = length init" for st w2
    by (auto simp: yield_next_Inr gen_ok_def dest: sample_inner_next_ok)
  show ?thesis
  proof (cases g)
    case (Sampling st)
    with assms have "inner_ok init st"
      and "yield_next rng logprob init st w = Some (Inr (row, g', w'))"
      by (simp_all add: sample_next_def gen_ok_def)
    then show ?thesis by (rule y)
  next
    case Created
    show ?thesis
    proof (cases "0 < ntune (self (default_widths init w))")
      case False
      with Created assms(1)
      have "yield_next rng logprob init NotStarted (default_widths init w) = Some (Inr (row, g', w'))"
        by (simp add: sample_next_def Let_def)
      then show ?thesis by (rule y[rotated]) (simp add: inner_ok_def)
    next
      case True
      with Created assms(1) obtain prev st w2 where
        t: "tune rng logprob init (init, NotStarted, default_widths init w) = Some (Inr (prev, st, w2))"
        and yn: "yield_next rng logprob init st w2 = Some (Inr (row, g', w'))"
        by (auto simp: sample_next_def bindE_Inr Let_def)
      from tune_ok[OF t] have "inner_ok init st" by (simp add: inner_ok_def)
      then show ?thesis using yn by (rule y)
    qed
  qed
qed

lemma pull_seq_shape:
  assumes "pull_seq k rng logprob init g w = Some (Inr (rows, g', w'))" "gen_ok init g"
  shows "length rows = k \<and> (\<forall>row\<in>set rows. length row = length init) \<and> gen_ok init g'"
  using assms
proof (induction k arbitrary: g w rows)
  case 0
  then show ?case by simp
next
  case (Suc k)
  from Suc.prems(1) obtain row g1 w1 rest where
    p: "sample_next rng logprob init g w = Some (Inr (row, g1, w1))"
    and r: "pull_seq k rng logprob init g1 w1 = Some (Inr (rest, g', w'))"
    and rows: "rows = row # rest"
    by (auto simp: bindE_Inr)
  from sample_next_ok[OF p Suc.prems(2)] have "gen_ok init g1" "length row = length init" by simp_all
  with Suc.IH[OF r] rows show ?case by simp
qed

lemma run_eq_pull_seq:
  assumes "0 \<le> nsteps"
  shows "run rng logprob init nsteps w =
           bindE (pull_seq (nat nsteps) rng logprob init Created w)
             (\<lambda>(rows, g, w'). Some (Inr (rows, w')))"
  using assms
    run_loop_pull_seq[of 0 "nat nsteps" "replicate (nat nsteps) (replicate (length init) 0)"
      rng logprob init Created w]
  by (simp add: run_def bindE_assoc bindE_simps split_def)

text \<open>
  C5. For \<open>nsteps \<ge> 0\<close>, \<^verbatim>\<open>run\<close> is \<open>nsteps\<close> successive pulls on the
  sampler's sequence, no fewer and no more: it returns the rows pulled, in order, and
  leaves the sampler and the random source as the last of these pulls left them; it
  diverges or raises exactly when one of these pulls does. A returned matrix has
  \<open>nsteps\<close> rows of length \<open>len(init)\<close>. With \<open>nsteps = 0\<close> it returns the
  empty matrix and changes nothing: the generator is never advanced, so there is no
  log-density evaluation at all.
\<close>

theorem run_pulls_exactly_nsteps:
  assumes "0 \<le> nsteps"
  shows "run rng logprob init nsteps w =
           bindE (pull_seq (nat nsteps) rng logprob init Created w)
             (\<lambda>(rows, g, w'). Some (Inr (rows, w'))) \<and>
         (run rng logprob init nsteps w = Some (Inr (samples, w')) \<longrightarrow>
            length samples = nat nsteps \<and> (\<forall>row\<in>set samples. length row = length init)) \<and>
         run rng logprob init 0 w = Some (Inr ([], w))"
proof -
  have eq: "run rng logprob init nsteps w =
           bindE (pull_seq (nat nsteps) rng logprob init Created w)
             (\<lambda>(rows, g, w'). Some (Inr (rows, w')))"
    using assms by (rule run_eq_pull_seq)
  have shape: "length samples = nat nsteps \<and> (\<forall>row\<in>set samples. length row = length init)"
    if "run rng logprob init nsteps w = Some (Inr (samples, w'))"
  proof -
    from that eq obtain g' where
      "pull_seq (nat nsteps) rng logprob init Created w = Some (Inr (samples, g', w'))"
      by (auto simp: bindE_Inr)
    from pull_seq_shape[OF this] show ?thesis by (simp add: gen_ok_def)
  qed
  have zero: "run rng logprob init 0 w = Some (Inr ([], w))"
    by (simp add: run_def bindE_simps)
  from eq shape zero show ?thesis by blast
qed

theorem run_pulls_exactly_nsteps_witness:
  "(0::int) \<le> 3 \<and>
   run rng_const lp_normal2 [0, 0] 3 (world0 None 0 ()) =
     Some (Inr ([[0, 0], [0, 0], [0, 0]],
                \<lparr>self = \<lparr>widths = Some [1, 1], ntune = 0\<rparr>, rd = (), evals = 16\<rparr>)) \<and>
   run rng_const lp_normal2 [0, 0] 3 (world0 None 0 ()) =
     bindE (pull_seq (nat 3) rng_const lp_normal2 [0, 0] Created (world0 None 0 ()))
       (\<lambda>(rows, g, w'). Some (Inr (rows, w'))) \<and>
   length [[0, 0], [0, 0], [0 :: real, 0]] = nat 3 \<and>
   list_all (\<lambda>row. length row = length [0 :: real, 0]) [[0, 0], [0, 0], [0 :: real, 0]] \<and>
   run rng_const lp_normal2 [0, 0] 0 (world0 None 0 ()) = Some (Inr ([], world0 None 0 ()))"
proof -
  have h: "(0::int) \<le> 3" by simp
  have e: "run rng_const lp_normal2 [0, 0] 3 (world0 None 0 ()) =
     Some (Inr ([[0, 0], [0, 0], [0, 0]],
                \<lparr>self = \<lparr>widths = Some [1, 1], ntune = 0\<rparr>, rd = (), evals = 16\<rparr>))"
    by (simp add: eval_defs rng_const_def lp_normal2_def upt_rec numeral_3_eq_3)
  from run_pulls_exactly_nsteps[OF h, of rng_const lp_normal2 "[0, 0]" "world0 None 0 ()"
         "[[0, 0], [0, 0], [0, 0]]"
         "\<lparr>self = \<lparr>widths = Some [1, 1], ntune = 0\<rparr>, rd = (), evals = 16\<rparr>"] e
  show ?thesis by simp
qed

subsection \<open>When the widths change\<close>

lemma for_loop_append:
  "for_loop (vs @ us) body s = bindE (for_loop vs body s) (for_loop us body)"
proof (induction vs arbitrary: s)
  case Nil
  show ?case by (simp add: bindE_simps)
next
  case (Cons v vs)
  have "for_loop (vs @ us) body = (\<lambda>t. bindE (for_loop vs body t) (for_loop us body))"
    by (rule ext) (rule Cons.IH)
  then show ?case by (simp add: bindE_assoc)
qed

lemma for_loop_nested:
  "for_loop is (\<lambda>i. for_loop ds body) s = for_loop (concat (map (\<lambda>i. ds) is)) body s"
proof (induction "is" arbitrary: s)
  case Nil
  show ?case by simp
next
  case (Cons i "is")
  have "for_loop (i # is) (\<lambda>i. for_loop ds body) s =
          bindE (for_loop ds body s) (for_loop is (\<lambda>i. for_loop ds body))"
    by simp
  also have "\<dots> = bindE (for_loop ds body s) (for_loop (concat (map (\<lambda>i. ds) is)) body)"
    by (rule bindE_cong_Inr) (rule Cons.IH)
  finally show ?case by (simp add: for_loop_append)
qed

lemma tune_flat:
  "tune rng logprob init (prev, st, w) =
     for_loop (concat (replicate (nat (ntune (self w))) [0 ..< length init]))
       (tune_body rng logprob init) (prev, st, w)"
  by (simp add: tune_def for_loop_nested map_replicate_const)

lemma length_tune_schedule: "length (concat (replicate n [0 ..< k])) = n * k"
  by (induction n) simp_all

lemma default_widths_ntune: "ntune (self (default_widths init w)) = ntune (self w)"
  by (simp add: default_widths_def)

lemma sample_next_Sampling:
  assumes "sample_next rng logprob init g w = Some (Inr (row, g', w'))"
  shows "\<exists>st'. g' = Sampling st'"
  using assms by (auto elim!: sample_next_Inr simp: yield_next_Inr)

lemma sample_next_frozen:
  assumes "sample_next rng logprob init (Sampling st) w = Some (Inr (row, g', w'))"
  shows "self w' = self w"
  using assms by (auto simp: sample_next_def dest: yield_next_self)

lemma sample_next_untuned:
  assumes "ntune (self w) \<le> 0"
    and "sample_next rng logprob init Created w = Some (Inr (row, g', w'))"
  shows "self w' = self (default_widths init w)"
  using assms
  by (auto simp: sample_next_def Let_def default_widths_ntune dest: yield_next_self)

lemma pull_seq_frozen:
  assumes "pull_seq k rng logprob init (Sampling st) w = Some (Inr (rows, g', w'))"
  shows "self w' = self w"
  using assms
proof (induction k arbitrary: st w rows)
  case 0
  then show ?case by simp
next
  case (Suc k)
  from Suc.prems obtain row g1 w1 rest where
    p: "sample_next rng logprob init (Sampling st) w = Some (Inr (row, g1, w1))"
    and r: "pull_seq k rng logprob init g1 w1 = Some (Inr (rest, g', w'))"
    by (auto simp: bindE_Inr)
  from sample_next_Sampling[OF p] obtain st1 where "g1 = Sampling st1" by blast
  with Suc.IH[of st1 w1 rest] r sample_next_frozen[OF p] show ?case by simp
qed

lemma run_untuned:
  assumes "ntune (self w) \<le> 0" "0 < nsteps"
    and "run rng logprob init nsteps w = Some (Inr (samples, w'))"
  shows "self w' = self (default_widths init w)"
proof -
  from assms(2) obtain k where k: "nat nsteps = Suc k" by (cases "nat nsteps") auto
  from assms(2,3) run_eq_pull_seq[of nsteps rng logprob init w] k obtain g' where
    "pull_seq (Suc k) rng logprob init Created w = Some (Inr (samples, g', w'))"
    by (auto simp: bindE_Inr)
  then obtain row g1 w1 rest where
    p: "sample_next rng logprob init Created w = Some (Inr (row, g1, w1))"
    and r: "pull_seq k rng logprob init g1 w1 = Some (Inr (rest, g', w'))"
    by (auto simp: bindE_Inr)
  from sample_next_Sampling[OF p] obtain st1 where "g1 = Sampling st1" by blast
  with r pull_seq_frozen[of k rng logprob init st1 w1 rest g' w'] have "self w' = self w1" by simp
  with sample_next_untuned[OF assms(1) p] show ?thesis by simp
qed

lemma tune_body_Inr:
  assumes "tune_body rng logprob init d (prev, st, w) = Some (Inr (cur, st', w'))"
  shows "\<exists>w1 ws. sample_inner_next rng logprob init st w = Some (Inr (cur, st', w1)) \<and>
           widths (self w1) = Some ws \<and> d < length ws \<and>
           w' = w1\<lparr>self := (self w1)\<lparr>widths :=
                  Some (ws[d := 0.1 * \<bar>cur ! d - prev ! d\<bar> + 0.9 * ws ! d])\<rparr>\<rparr>"
  using assms
  by (auto simp: tune_body_def bindE_Inr tune_width_def split: option.splits if_splits)

text \<open>
  C4. The widths change only while tuning. A pull on \<^verbatim>\<open>_sample\<close> leaves the
  sampler as it was, and so does every pull on \<^verbatim>\<open>sample\<close> after the first.
  With \<open>ntune \<le> 0\<close> the first pull, and a whole run, leave the widths at their
  configured value, or at the default when none was configured. With \<open>ntune > 0\<close>
  the first pull runs the tuning body once for each of the
  \<open>ntune * len(init)\<close> entries of the schedule \<open>0, \<dots>, D-1, 0, \<dots>, D-1, \<dots>\<close>
  and only then yields one state, so no tuning state reaches the caller. The tuning
  body is one elementary step followed by
  \<open>widths[d] = 0.1 * |cur[d] - prev[d]| + 0.9 * widths[d]\<close>.
\<close>

theorem widths_change_only_while_tuning:
  "(sample_inner_next rng logprob init st w = Some (Inr (row, st', w')) \<longrightarrow> self w' = self w) \<and>
   (sample_next rng logprob init (Sampling st) w = Some (Inr (row, g', w')) \<longrightarrow> self w' = self w) \<and>
   (ntune (self w) \<le> 0 \<and> sample_next rng logprob init Created w = Some (Inr (row, g', w')) \<longrightarrow>
      self w' = self (default_widths init w)) \<and>
   (ntune (self w) \<le> 0 \<and> 0 < nsteps \<and> run rng logprob init nsteps w = Some (Inr (samples, w')) \<longrightarrow>
      self w' = self (default_widths init w)) \<and>
   (0 < ntune (self w) \<longrightarrow>
      sample_next rng logprob init Created w =
        bindE (for_loop (concat (replicate (nat (ntune (self w))) [0 ..< length init]))
                 (tune_body rng logprob init) (init, NotStarted, default_widths init w))
          (\<lambda>(prev, st, w2). yield_next rng logprob init st w2) \<and>
      int (length (concat (replicate (nat (ntune (self w))) [0 ..< length init]))) =
        ntune (self w) * int (length init)) \<and>
   (tune_body rng logprob init d (prev, st, w) = Some (Inr (cur, st', w')) \<longrightarrow>
      (\<exists>w1 ws. sample_inner_next rng logprob init st w = Some (Inr (cur, st', w1)) \<and>
         widths (self w1) = Some ws \<and> d < length ws \<and>
         w' = w1\<lparr>self := (self w1)\<lparr>widths :=
                Some (ws[d := 0.1 * \<bar>cur ! d - prev ! d\<bar> + 0.9 * ws ! d])\<rparr>\<rparr>))"
proof -
  have tuned: "sample_next rng logprob init Created w =
        bindE (for_loop (concat (replicate (nat (ntune (self w))) [0 ..< length init]))
                 (tune_body rng logprob init) (init, NotStarted, default_widths init w))
          (\<lambda>(prev, st, w2). yield_next rng logprob init st w2) \<and>
      int (length (concat (replicate (nat (ntune (self w))) [0 ..< length init]))) =
        ntune (self w) * int (length init)"
    if "0 < ntune (self w)"
    using that
    by (simp add: sample_next_def Let_def default_widths_ntune tune_flat length_tune_schedule)
  show ?thesis
    using sample_inner_next_self[of rng logprob init st w row st' w']
      sample_next_frozen[of rng logprob init st w row g' w']
      sample_next_untuned[of w rng logprob init row g' w']
      run_untuned[of w nsteps rng logprob init samples w']
      tuned
      tune_body_Inr[of rng logprob init d prev st w cur st' w']
    by blast
qed

theorem widths_change_only_while_tuning_witness:
  "sample_next rng_const lp_normal1 [0] Created (world0 (Some [1]) 0 ()) = Some (Inr ([0], Sampling (Suspended \<lparr>fr_x = [0], fr_x_prob = Fin 0, fr_d = 0, fr_logy = Fin (- (1000000001 / 1000000000))\<rparr>), \<lparr>self = \<lparr>widths = Some [1], ntune = 0\<rparr>, rd = (), evals = 6\<rparr>)) \<and>
   sample_inner_next rng_const lp_normal1 [0] (Suspended \<lparr>fr_x = [0], fr_x_prob = Fin 0, fr_d = 0, fr_logy = Fin (- (1000000001 / 1000000000))\<rparr>) \<lparr>self = \<lparr>widths = Some [1], ntune = 0\<rparr>, rd = (), evals = 6\<rparr> = Some (Inr ([0], Suspended \<lparr>fr_x = [0], fr_x_prob = Fin 0, fr_d = 0, fr_logy = Fin (- (1000000001 / 1000000000))\<rparr>, \<lparr>self = \<lparr>widths = Some [1], ntune = 0\<rparr>, rd = (), evals = 11\<rparr>)) \<and>
   sample_next rng_const lp_normal1 [0] (Sampling (Suspended \<lparr>fr_x = [0], fr_x_prob = Fin 0, fr_d = 0, fr_logy = Fin (- (1000000001 / 1000000000))\<rparr>)) \<lparr>self = \<lparr>widths = Some [1], ntune = 0\<rparr>, rd = (), evals = 6\<rparr> = Some (Inr ([0], Sampling (Suspended \<lparr>fr_x = [0], fr_x_prob = Fin 0, fr_d = 0, fr_logy = Fin (- (1000000001 / 1000000000))\<rparr>), \<lparr>self = \<lparr>widths = Some [1], ntune = 0\<rparr>, rd = (), evals = 11\<rparr>)) \<and>
   run rng_const lp_normal1 [0] 2 (world0 (Some [1]) 0 ()) = Some (Inr ([[0], [0]], \<lparr>self = \<lparr>widths = Some [1], ntune = 0\<rparr>, rd = (), evals = 11\<rparr>)) \<and>
   self \<lparr>self = \<lparr>widths = Some [1], ntune = 0\<rparr>, rd = (), evals = 6\<rparr> = self (default_widths [0] (world0 (Some [1]) 0 ())) \<and>
   self \<lparr>self = \<lparr>widths = Some [1], ntune = 0\<rparr>, rd = (), evals = 11\<rparr> = self \<lparr>self = \<lparr>widths = Some [1], ntune = 0\<rparr>, rd = (), evals = 6\<rparr> \<and>
   0 < ntune (self (world0 (Some [1]) 2 ())) \<and>
   sample_next rng_const lp_normal1 [0] Created (world0 (Some [1]) 2 ()) =
        bindE (for_loop (concat (replicate (nat 2) [0 ..< length [0 :: real]]))
                 (tune_body rng_const lp_normal1 [0]) ([0], NotStarted, world0 (Some [1]) 2 ()))
          (\<lambda>(prev, st, w2). yield_next rng_const lp_normal1 [0] st w2) \<and>
   tune_body rng_const lp_normal1 [0] 0 ([0], NotStarted, world0 (Some [1]) 2 ()) = Some (Inr ([0], Suspended \<lparr>fr_x = [0], fr_x_prob = Fin 0, fr_d = 0, fr_logy = Fin (- (1000000001 / 1000000000))\<rparr>, \<lparr>self = \<lparr>widths = Some [9 / 10], ntune = 2\<rparr>, rd = (), evals = 6\<rparr>)) \<and>
   (\<exists>w1 ws. sample_inner_next rng_const lp_normal1 [0] NotStarted (world0 (Some [1]) 2 ()) =
        Some (Inr ([0], Suspended \<lparr>fr_x = [0], fr_x_prob = Fin 0, fr_d = 0, fr_logy = Fin (- (1000000001 / 1000000000))\<rparr>, w1)) \<and>
      widths (self w1) = Some ws \<and> 0 < length ws \<and>
      \<lparr>self = \<lparr>widths = Some [9 / 10], ntune = 2\<rparr>, rd = (), evals = 6\<rparr> = w1\<lparr>self := (self w1)\<lparr>widths :=
                Some (ws[0 := 0.1 * \<bar>[0] ! 0 - [0] ! 0\<bar> + 0.9 * ws ! 0])\<rparr>\<rparr>)"
proof -
  have A: "sample_next rng_const lp_normal1 [0] Created (world0 (Some [1]) 0 ()) = Some (Inr ([0], Sampling (Suspended \<lparr>fr_x = [0], fr_x_prob = Fin 0, fr_d = 0, fr_logy = Fin (- (1000000001 / 1000000000))\<rparr>), \<lparr>self = \<lparr>widths = Some [1], ntune = 0\<rparr>, rd = (), evals = 6\<rparr>))"
    by (simp add: eval_defs rng_const_def lp_normal1_def)
  have I: "sample_inner_next rng_const lp_normal1 [0] (Suspended \<lparr>fr_x = [0], fr_x_prob = Fin 0, fr_d = 0, fr_logy = Fin (- (1000000001 / 1000000000))\<rparr>) \<lparr>self = \<lparr>widths = Some [1], ntune = 0\<rparr>, rd = (), evals = 6\<rparr> = Some (Inr ([0], Suspended \<lparr>fr_x = [0], fr_x_prob = Fin 0, fr_d = 0, fr_logy = Fin (- (1000000001 / 1000000000))\<rparr>, \<lparr>self = \<lparr>widths = Some [1], ntune = 0\<rparr>, rd = (), evals = 11\<rparr>))"
    by (simp add: eval_defs rng_const_def lp_normal1_def)
  have B: "sample_next rng_const lp_normal1 [0] (Sampling (Suspended \<lparr>fr_x = [0], fr_x_prob = Fin 0, fr_d = 0, fr_logy = Fin (- (1000000001 / 1000000000))\<rparr>)) \<lparr>self = \<lparr>widths = Some [1], ntune = 0\<rparr>, rd = (), evals = 6\<rparr> = Some (Inr ([0], Sampling (Suspended \<lparr>fr_x = [0], fr_x_prob = Fin 0, fr_d = 0, fr_logy = Fin (- (1000000001 / 1000000000))\<rparr>), \<lparr>self = \<lparr>widths = Some [1], ntune = 0\<rparr>, rd = (), evals = 11\<rparr>))"
    by (simp add: eval_defs rng_const_def lp_normal1_def)
  have C: "run rng_const lp_normal1 [0] 2 (world0 (Some [1]) 0 ()) = Some (Inr ([[0], [0]], \<lparr>self = \<lparr>widths = Some [1], ntune = 0\<rparr>, rd = (), evals = 11\<rparr>))"
    by (simp add: eval_defs rng_const_def lp_normal1_def upt_rec numeral_2_eq_2)
  have D: "tune_body rng_const lp_normal1 [0] 0 ([0], NotStarted, world0 (Some [1]) 2 ()) = Some (Inr ([0], Suspended \<lparr>fr_x = [0], fr_x_prob = Fin 0, fr_d = 0, fr_logy = Fin (- (1000000001 / 1000000000))\<rparr>, \<lparr>self = \<lparr>widths = Some [9 / 10], ntune = 2\<rparr>, rd = (), evals = 6\<rparr>))"
    by (simp add: eval_defs rng_const_def lp_normal1_def)
  have n0: "ntune (self (world0 (Some [1]) 0 ())) \<le> 0" "(0::int) < 2"
    and n2: "0 < ntune (self (world0 (Some [1]) 2 ()))"
    by (simp_all add: world0_def ComponentWiseSlice_def)
  note t1 = widths_change_only_while_tuning[of rng_const lp_normal1 "[0]"
      "Suspended \<lparr>fr_x = [0], fr_x_prob = Fin 0, fr_d = 0, fr_logy = Fin (- (1000000001 / 1000000000))\<rparr>" "\<lparr>self = \<lparr>widths = Some [1], ntune = 0\<rparr>, rd = (), evals = 6\<rparr>" "[0]" "Suspended \<lparr>fr_x = [0], fr_x_prob = Fin 0, fr_d = 0, fr_logy = Fin (- (1000000001 / 1000000000))\<rparr>" "\<lparr>self = \<lparr>widths = Some [1], ntune = 0\<rparr>, rd = (), evals = 11\<rparr>" "Sampling (Suspended \<lparr>fr_x = [0], fr_x_prob = Fin 0, fr_d = 0, fr_logy = Fin (- (1000000001 / 1000000000))\<rparr>)"]
  note t2 = widths_change_only_while_tuning[of rng_const lp_normal1 "[0]"
      NotStarted "world0 (Some [1]) 0 ()" "[0]" NotStarted "\<lparr>self = \<lparr>widths = Some [1], ntune = 0\<rparr>, rd = (), evals = 6\<rparr>" "Sampling (Suspended \<lparr>fr_x = [0], fr_x_prob = Fin 0, fr_d = 0, fr_logy = Fin (- (1000000001 / 1000000000))\<rparr>)" 2 "[[0], [0]]"]
  note t3 = widths_change_only_while_tuning[of rng_const lp_normal1 "[0]"
      NotStarted "world0 (Some [1]) 2 ()" "[0]" "Suspended \<lparr>fr_x = [0], fr_x_prob = Fin 0, fr_d = 0, fr_logy = Fin (- (1000000001 / 1000000000))\<rparr>" "\<lparr>self = \<lparr>widths = Some [9 / 10], ntune = 2\<rparr>, rd = (), evals = 6\<rparr>" Created 1 "[]" 0 "[0]" "[0]"]
  note t4 = widths_change_only_while_tuning[of rng_const lp_normal1 "[0]"
      NotStarted "world0 (Some [1]) 0 ()" "[0]" NotStarted "\<lparr>self = \<lparr>widths = Some [1], ntune = 0\<rparr>, rd = (), evals = 11\<rparr>" "Sampling (Suspended \<lparr>fr_x = [0], fr_x_prob = Fin 0, fr_d = 0, fr_logy = Fin (- (1000000001 / 1000000000))\<rparr>)" 2 "[[0], [0]]"]
  show ?thesis
    using t1 t2 t3 t4 A I B C D n0 n2
    by (simp add: world0_def ComponentWiseSlice_def default_widths_def)
qed

subsection \<open>The default widths\<close>

lemma default_widths_idem: "default_widths init (default_widths init w) = default_widths init w"
  by (simp add: default_widths_def)

lemma default_widths_Some: "widths (self w) = Some ws \<Longrightarrow> default_widths init w = w"
  by (simp add: default_widths_def)

lemma default_widths_None:
  "widths (self w) = None \<Longrightarrow>
   widths (self (default_widths init w)) = Some (replicate (length init) 1)"
  by (simp add: default_widths_def)

lemma sample_next_default_first:
  "sample_next rng logprob init Created w =
   sample_next rng logprob init Created (default_widths init w)"
  by (simp add: sample_next_def default_widths_idem)

lemma elem_step_IndexError:
  "widths (self w) = Some ws \<Longrightarrow> length ws \<le> d \<Longrightarrow>
   elem_step rng logprob x x_prob d w = Some (Inl IndexError)"
  by (simp add: elem_step_def)

text \<open>
  C10. Creating the generator of \<^verbatim>\<open>sample\<close> runs nothing: a run that never
  pulls leaves \<open>widths = None\<close>. The first pull sets the default before anything
  else, so it is the very pull it would be had the widths been set beforehand: with
  \<open>widths = None\<close> they become \<open>len(init)\<close> ones, and stay so through the pull
  when there is no tuning. Widths that are set are never derived again: a later call
  of \<^verbatim>\<open>sample\<close>, whatever its \<open>init\<close>, keeps them, and an elementary step
  on a dimension beyond their length raises IndexError.
\<close>

theorem default_widths_set_once:
  "run rng logprob init 0 w = Some (Inr ([], w)) \<and>
   sample_next rng logprob init Created w =
     sample_next rng logprob init Created (default_widths init w) \<and>
   (widths (self w) = None \<longrightarrow>
      widths (self (default_widths init w)) = Some (replicate (length init) 1)) \<and>
   (widths (self w) = None \<and> ntune (self w) \<le> 0 \<and>
    sample_next rng logprob init Created w = Some (Inr (row, g', w')) \<longrightarrow>
      widths (self w') = Some (replicate (length init) 1)) \<and>
   (widths (self w) = Some ws \<longrightarrow> default_widths init w = w) \<and>
   (widths (self w) = Some ws \<and> ntune (self w) \<le> 0 \<and>
    sample_next rng logprob init Created w = Some (Inr (row, g', w')) \<longrightarrow>
      widths (self w') = Some ws) \<and>
   (widths (self w) = Some ws \<and> length ws \<le> d \<longrightarrow>
      elem_step rng logprob x x_prob d w = Some (Inl IndexError))"
proof -
  have z: "run rng logprob init 0 w = Some (Inr ([], w))"
    by (simp add: run_def bindE_simps)
  have n: "widths (self w') = Some (replicate (length init) 1)"
    if "widths (self w) = None" "ntune (self w) \<le> 0"
      "sample_next rng logprob init Created w = Some (Inr (row, g', w'))"
    using sample_next_untuned[OF that(2,3)] default_widths_None[OF that(1), of init] by simp
  have s: "widths (self w') = Some ws"
    if "widths (self w) = Some ws" "ntune (self w) \<le> 0"
      "sample_next rng logprob init Created w = Some (Inr (row, g', w'))"
    using sample_next_untuned[OF that(2,3)] default_widths_Some[OF that(1), of init] that(1)
    by simp
  show ?thesis
    using z sample_next_default_first[of rng logprob init w]
      default_widths_None[of w init] n default_widths_Some[of w ws init] s
      elem_step_IndexError[of w ws d rng logprob x x_prob]
    by blast
qed

theorem default_widths_set_once_witness:
  "widths (self (world0 None 0 ())) = None \<and>
   run rng_const lp_normal1 [0] 0 (world0 None 0 ()) = Some (Inr ([], world0 None 0 ())) \<and>
   sample_next rng_const lp_normal1 [0] Created (world0 None 0 ()) = Some (Inr ([0], Sampling (Suspended \<lparr>fr_x = [0], fr_x_prob = Fin 0, fr_d = 0, fr_logy = Fin (- (1000000001 / 1000000000))\<rparr>), \<lparr>self = \<lparr>widths = Some [1], ntune = 0\<rparr>, rd = (), evals = 6\<rparr>)) \<and>
   widths (self \<lparr>self = \<lparr>widths = Some [1], ntune = 0\<rparr>, rd = (), evals = 6\<rparr>) = Some (replicate (length [0 :: real]) 1) \<and>
   default_widths [0, 0] \<lparr>self = \<lparr>widths = Some [1], ntune = 0\<rparr>, rd = (), evals = 6\<rparr> = \<lparr>self = \<lparr>widths = Some [1], ntune = 0\<rparr>, rd = (), evals = 6\<rparr> \<and>
   sample_next rng_const lp_normal2 [0, 0] Created \<lparr>self = \<lparr>widths = Some [1], ntune = 0\<rparr>, rd = (), evals = 6\<rparr> = Some (Inr ([0, 0], Sampling (Suspended \<lparr>fr_x = [0, 0], fr_x_prob = Fin (- ln (2 * pi)), fr_d = 0, fr_logy = Fin (- (1000000001 / 1000000000) - ln (2 * pi))\<rparr>), \<lparr>self = \<lparr>widths = Some [1], ntune = 0\<rparr>, rd = (), evals = 12\<rparr>)) \<and>
   widths (self \<lparr>self = \<lparr>widths = Some [1], ntune = 0\<rparr>, rd = (), evals = 12\<rparr>) = Some [1] \<and>
   elem_step rng_const lp_normal2 [0, 0] (Fin (- ln (2 * pi))) 1 \<lparr>self = \<lparr>widths = Some [1], ntune = 0\<rparr>, rd = (), evals = 12\<rparr> = Some (Inl IndexError) \<and>
   run rng_const lp_normal2 [0, 0] 2 \<lparr>self = \<lparr>widths = Some [1], ntune = 0\<rparr>, rd = (), evals = 6\<rparr> = Some (Inl IndexError)"
proof -
  have N: "widths (self (world0 None 0 ())) = None" "ntune (self (world0 None 0 ())) \<le> 0"
    by (simp_all add: world0_def ComponentWiseSlice_def)
  have Z: "run rng_const lp_normal1 [0] 0 (world0 None 0 ()) = Some (Inr ([], world0 None 0 ()))"
    by (simp add: eval_defs)
  have A: "sample_next rng_const lp_normal1 [0] Created (world0 None 0 ()) = Some (Inr ([0], Sampling (Suspended \<lparr>fr_x = [0], fr_x_prob = Fin 0, fr_d = 0, fr_logy = Fin (- (1000000001 / 1000000000))\<rparr>), \<lparr>self = \<lparr>widths = Some [1], ntune = 0\<rparr>, rd = (), evals = 6\<rparr>))"
    by (simp add: eval_defs rng_const_def lp_normal1_def)
  have S: "widths (self \<lparr>self = \<lparr>widths = Some [1], ntune = 0\<rparr>, rd = (), evals = 6\<rparr>) = Some [1]" "ntune (self \<lparr>self = \<lparr>widths = Some [1], ntune = 0\<rparr>, rd = (), evals = 6\<rparr>) \<le> 0" "length [1 :: real] \<le> 1"
    by simp_all
  have B: "sample_next rng_const lp_normal2 [0, 0] Created \<lparr>self = \<lparr>widths = Some [1], ntune = 0\<rparr>, rd = (), evals = 6\<rparr> = Some (Inr ([0, 0], Sampling (Suspended \<lparr>fr_x = [0, 0], fr_x_prob = Fin (- ln (2 * pi)), fr_d = 0, fr_logy = Fin (- (1000000001 / 1000000000) - ln (2 * pi))\<rparr>), \<lparr>self = \<lparr>widths = Some [1], ntune = 0\<rparr>, rd = (), evals = 12\<rparr>))"
    by (simp add: eval_defs rng_const_def lp_normal2_def)
  have C: "run rng_const lp_normal2 [0, 0] 2 \<lparr>self = \<lparr>widths = Some [1], ntune = 0\<rparr>, rd = (), evals = 6\<rparr> = Some (Inl IndexError)"
    by (simp add: eval_defs rng_const_def lp_normal2_def upt_rec numeral_2_eq_2)
  note t1 = default_widths_set_once[of rng_const lp_normal1 "[0]" "world0 None 0 ()"
      "[0]" "Sampling (Suspended \<lparr>fr_x = [0], fr_x_prob = Fin 0, fr_d = 0, fr_logy = Fin (- (1000000001 / 1000000000))\<rparr>)" "\<lparr>self = \<lparr>widths = Some [1], ntune = 0\<rparr>, rd = (), evals = 6\<rparr>"]
  note t2 = default_widths_set_once[of rng_const lp_normal2 "[0, 0]" "\<lparr>self = \<lparr>widths = Some [1], ntune = 0\<rparr>, rd = (), evals = 6\<rparr>"
      "[0, 0]" "Sampling (Suspended \<lparr>fr_x = [0, 0], fr_x_prob = Fin (- ln (2 * pi)), fr_d = 0, fr_logy = Fin (- (1000000001 / 1000000000) - ln (2 * pi))\<rparr>)" "\<lparr>self = \<lparr>widths = Some [1], ntune = 0\<rparr>, rd = (), evals = 12\<rparr>" "[1]" 1 "[0, 0]" "Fin (- ln (2 * pi))"]
  note t3 = default_widths_set_once[of rng_const lp_normal2 "[0, 0]" "\<lparr>self = \<lparr>widths = Some [1], ntune = 0\<rparr>, rd = (), evals = 12\<rparr>"
      "[0, 0]" Created "\<lparr>self = \<lparr>widths = Some [1], ntune = 0\<rparr>, rd = (), evals = 12\<rparr>" "[1]" 1 "[0, 0]" "Fin (- ln (2 * pi))"]
  have "elem_step rng_const lp_normal2 [0, 0] (Fin (- ln (2 * pi))) 1 \<lparr>self = \<lparr>widths = Some [1], ntune = 0\<rparr>, rd = (), evals = 12\<rparr> = Some (Inl IndexError)"
    using t3 by simp
  moreover have "widths (self \<lparr>self = \<lparr>widths = Some [1], ntune = 0\<rparr>, rd = (), evals = 6\<rparr>) = Some (replicate (length [0 :: real]) 1)"
    using t1 N A by simp
  moreover have "default_widths [0, 0] \<lparr>self = \<lparr>widths = Some [1], ntune = 0\<rparr>, rd = (), evals = 6\<rparr> = \<lparr>self = \<lparr>widths = Some [1], ntune = 0\<rparr>, rd = (), evals = 6\<rparr>"
    using t2 by simp
  ultimately show ?thesis
    using N Z A S B C by simp
qed

subsection \<open>One coordinate at a time\<close>

lemma differing_Cons:
  "differing (x # xs) (y # ys) = (if x \<noteq> y then 1 else 0) + differing xs ys"
  by (simp add: differing_def)

lemma differing_same: "differing xs xs = 0"
  by (induction xs) (simp_all add: differing_def)

lemma differing_le_1:
  assumes "length xs = length ys" "\<forall>j. j < length xs \<and> j \<noteq> d \<longrightarrow> xs ! j = ys ! j"
  shows "differing xs ys \<le> 1"
  using assms
proof (induction xs ys arbitrary: d rule: list_induct2)
  case Nil
  show ?case by (simp add: differing_def)
next
  case (Cons x xs y ys)
  show ?case
  proof (cases d)
    case 0
    have "xs = ys"
    proof (rule nth_equalityI)
      show "length xs = length ys" by (rule Cons.hyps)
      fix i assume "i < length xs"
      with Cons.prems 0 have "(x # xs) ! Suc i = (y # ys) ! Suc i" by auto
      then show "xs ! i = ys ! i" by simp
    qed
    then show ?thesis by (simp add: differing_Cons differing_same)
  next
    case (Suc d')
    with Cons.prems have "(x # xs) ! 0 = (y # ys) ! 0" by auto
    then have xy: "x = y" by simp
    have "\<forall>j. j < length xs \<and> j \<noteq> d' \<longrightarrow> xs ! j = ys ! j"
    proof (intro allI impI)
      fix j assume "j < length xs \<and> j \<noteq> d'"
      with Cons.prems Suc have "(x # xs) ! Suc j = (y # ys) ! Suc j" by auto
      then show "xs ! j = ys ! j" by simp
    qed
    from Cons.IH[OF this] xy show ?thesis by (simp add: differing_Cons)
  qed
qed

lemma sample_inner_next_step:
  assumes "sample_inner_next rng logprob init st w = Some (Inr (row, st', w'))" "inner_ok init st"
  shows "\<exists>fr. st' = Suspended fr \<and> row = fr_x fr \<and> fr_d fr = next_dim init st \<and>
           next_dim init st < length init \<and> length row = length init \<and>
           (\<forall>j. j \<noteq> next_dim init st \<longrightarrow> row ! j = prev_state init st ! j) \<and>
           differing row (prev_state init st) \<le> 1"
proof -
  from assms(1) obtain fr x x_prob d w0 where
    e: "elem_step rng logprob x x_prob d w0 = Some (Inr (fr, w'))"
    and st': "st' = Suspended fr" and row: "row = fr_x fr" and n: "length init \<noteq> 0"
    and c: "(st = NotStarted \<and> x = init \<and> x_prob = logprob init \<and> d = 0 \<and> evals w0 = Suc (evals w)) \<or>
     (\<exists>fr0. st = Suspended fr0 \<and> x = fr_x fr0 \<and> x_prob = fr_x_prob fr0 \<and> w0 = w \<and>
            d = (if Suc (fr_d fr0) < length init then Suc (fr_d fr0) else 0))"
    by (rule sample_inner_next_Inr)
  from c have x: "x = prev_state init st" and d: "d = next_dim init st"
    by (auto simp: prev_state_def next_dim_def)
  from c assms(2) n have l: "length x = length init" and dl: "d < length init"
    by (auto simp: inner_ok_def)
  note p = elem_step_post(4,5,6)[OF e]
  have "differing (fr_x fr) x \<le> 1"
    by (rule differing_le_1[where d = d]) (use p in auto)
  with p st' row x d l dl show ?thesis by auto
qed

lemma sample_next_step:
  assumes "sample_next rng logprob init (Sampling st) w = Some (Inr (row, g', w'))" "inner_ok init st"
  shows "\<exists>fr. g' = Sampling (Suspended fr) \<and> row = fr_x fr \<and> inner_ok init (Suspended fr) \<and>
           differing row (prev_state init st) \<le> 1"
proof -
  from assms(1) obtain st' where
    i: "sample_inner_next rng logprob init st w = Some (Inr (row, st', w'))" and g': "g' = Sampling st'"
    by (auto simp: sample_next_def yield_next_Inr)
  from sample_inner_next_step[OF i assms(2)] sample_inner_next_ok[OF i assms(2)] g'
  show ?thesis by auto
qed

lemma sample_next_frame:
  assumes "sample_next rng logprob init g w = Some (Inr (row, g', w'))" "gen_ok init g"
  shows "\<exists>fr. g' = Sampling (Suspended fr) \<and> row = fr_x fr \<and> inner_ok init (Suspended fr)"
proof -
  from assms(1) obtain state0 w0 where
    "yield_next rng logprob init state0 w0 = Some (Inr (row, g', w'))"
    by (rule sample_next_Inr)
  then obtain st' where
    i: "sample_inner_next rng logprob init state0 w0 = Some (Inr (row, st', w'))"
    and g': "g' = Sampling st'"
    by (auto simp: yield_next_Inr)
  from i obtain fr where "st' = Suspended fr" "row = fr_x fr"
    by (auto elim: sample_inner_next_Inr)
  with g' sample_next_ok[OF assms] show ?thesis by (auto simp: gen_ok_def)
qed

lemma pull_seq_chain:
  assumes "pull_seq k rng logprob init (Sampling (Suspended fr)) w = Some (Inr (rows, g', w'))"
    and "inner_ok init (Suspended fr)"
  shows "\<forall>i < length rows. differing (rows ! i) ((fr_x fr # rows) ! i) \<le> 1"
  using assms
proof (induction k arbitrary: fr w rows)
  case 0
  then show ?case by simp
next
  case (Suc k)
  from Suc.prems(1) obtain row g1 w1 rest where
    p: "sample_next rng logprob init (Sampling (Suspended fr)) w = Some (Inr (row, g1, w1))"
    and r: "pull_seq k rng logprob init g1 w1 = Some (Inr (rest, g', w'))"
    and rows: "rows = row # rest"
    by (auto simp: bindE_Inr)
  from sample_next_step[OF p Suc.prems(2)] obtain fr1 where
    g1: "g1 = Sampling (Suspended fr1)" and row: "row = fr_x fr1"
    and ok: "inner_ok init (Suspended fr1)"
    and d: "differing row (fr_x fr) \<le> 1"
    by (auto simp: prev_state_def)
  from Suc.IH[OF r[unfolded g1] ok] row
  have ih: "\<forall>i < length rest. differing (rest ! i) ((row # rest) ! i) \<le> 1" by simp
  show ?case
  proof (intro allI impI)
    fix i assume "i < length rows"
    with rows d ih show "differing (rows ! i) ((fr_x fr # rows) ! i) \<le> 1"
      by (cases i) auto
  qed
qed

lemma run_chain:
  assumes "run rng logprob init nsteps w = Some (Inr (samples, w'))"
  shows "\<forall>i. Suc i < length samples \<longrightarrow> differing (samples ! Suc i) (samples ! i) \<le> 1"
proof (cases "nsteps < 0")
  case True
  with assms show ?thesis by (simp add: run_def)
next
  case False
  then have "0 \<le> nsteps" by simp
  from run_eq_pull_seq[OF this, of rng logprob init w] assms
  have "bindE (pull_seq (nat nsteps) rng logprob init Created w)
          (\<lambda>(rows, g, w'). Some (Inr (rows, w'))) = Some (Inr (samples, w'))"
    by simp
  then obtain g' where
    ps: "pull_seq (nat nsteps) rng logprob init Created w = Some (Inr (samples, g', w'))"
    by (auto simp: bindE_Inr)
  show ?thesis
  proof (cases "nat nsteps")
    case 0
    with ps show ?thesis by simp
  next
    case (Suc k)
    with ps obtain row g1 w1 rest where
      p: "sample_next rng logprob init Created w = Some (Inr (row, g1, w1))"
      and r: "pull_seq k rng logprob init g1 w1 = Some (Inr (rest, g', w'))"
      and s: "samples = row # rest"
      by (auto simp: bindE_Inr)
    from sample_next_frame[OF p] obtain fr1 where
      g1: "g1 = Sampling (Suspended fr1)" and row: "row = fr_x fr1"
      and ok: "inner_ok init (Suspended fr1)"
      by (auto simp: gen_ok_def)
    from pull_seq_chain[OF r[unfolded g1] ok] row s
    show ?thesis by simp
  qed
qed

lemma run_shape:
  assumes "run rng logprob init nsteps w = Some (Inr (samples, w'))"
  shows "length samples = nat nsteps \<and> (\<forall>r\<in>set samples. length r = length init)"
proof (cases "nsteps < 0")
  case True
  with assms show ?thesis by (simp add: run_def)
next
  case False
  then have "0 \<le> nsteps" by simp
  from run_eq_pull_seq[OF this, of rng logprob init w] assms
  have "bindE (pull_seq (nat nsteps) rng logprob init Created w)
          (\<lambda>(rows, g, w'). Some (Inr (rows, w'))) = Some (Inr (samples, w'))"
    by simp
  then obtain g' where
    "pull_seq (nat nsteps) rng logprob init Created w = Some (Inr (samples, g', w'))"
    by (auto simp: bindE_Inr)
  from pull_seq_shape[OF this] show ?thesis by (simp add: gen_ok_def)
qed

text \<open>
  C8, as amended. A pull on \<^verbatim>\<open>_sample\<close> yields a vector of length
  \<open>len(init)\<close> that agrees with the state before the pull in every coordinate but
  the one just updated, and the updated dimension cycles \<open>0, 1, \<dots>, D-1, 0, \<dots>\<close>;
  so the yielded vector differs from the state before in at most one coordinate. The
  same holds between a snapshot emitted by \<^verbatim>\<open>sample\<close> and the one before it,
  and between consecutive rows of the matrix \<^verbatim>\<open>run\<close> returns, whose rows all
  have length \<open>len(init)\<close>. (In the two-dimensional scenario: five rows of length 2,
  each differing from the previous one in at most one coordinate.)
\<close>

theorem snapshot_differs_in_at_most_one_coordinate:
  "(inner_ok init st \<and> sample_inner_next rng logprob init st w = Some (Inr (row, st', w')) \<longrightarrow>
      (\<exists>fr. st' = Suspended fr \<and> row = fr_x fr \<and> fr_d fr = next_dim init st) \<and>
      next_dim init st < length init \<and> length row = length init \<and>
      (\<forall>j. j \<noteq> next_dim init st \<longrightarrow> row ! j = prev_state init st ! j) \<and>
      differing row (prev_state init st) \<le> 1) \<and>
   (inner_ok init st \<and> sample_next rng logprob init (Sampling st) w = Some (Inr (row, g', w')) \<longrightarrow>
      length row = length init \<and> differing row (prev_state init st) \<le> 1) \<and>
   (run rng logprob init nsteps w = Some (Inr (samples, w')) \<longrightarrow>
      length samples = nat nsteps \<and> (\<forall>r\<in>set samples. length r = length init) \<and>
      (\<forall>i. Suc i < length samples \<longrightarrow> differing (samples ! Suc i) (samples ! i) \<le> 1))"
proof (intro conjI impI)
  assume a: "inner_ok init st \<and> sample_inner_next rng logprob init st w = Some (Inr (row, st', w'))"
  then have ok: "inner_ok init st"
    and i: "sample_inner_next rng logprob init st w = Some (Inr (row, st', w'))" by simp_all
  note s = sample_inner_next_step[OF i ok]
  from s show "\<exists>fr. st' = Suspended fr \<and> row = fr_x fr \<and> fr_d fr = next_dim init st" by blast
  from s show "next_dim init st < length init" by blast
  from s show "length row = length init" by blast
  from s show "\<forall>j. j \<noteq> next_dim init st \<longrightarrow> row ! j = prev_state init st ! j" by blast
  from s show "differing row (prev_state init st) \<le> 1" by blast
next
  assume a: "inner_ok init st \<and> sample_next rng logprob init (Sampling st) w = Some (Inr (row, g', w'))"
  then have ok: "inner_ok init st"
    and p: "sample_next rng logprob init (Sampling st) w = Some (Inr (row, g', w'))" by simp_all
  from sample_next_ok[OF p] ok show "length row = length init" by (simp add: gen_ok_def)
  from sample_next_step[OF p ok] show "differing row (prev_state init st) \<le> 1" by blast
next
  assume r: "run rng logprob init nsteps w = Some (Inr (samples, w'))"
  from run_shape[OF r] show "length samples = nat nsteps" by simp
  from run_shape[OF r] show "\<forall>r\<in>set samples. length r = length init" by simp
  from run_chain[OF r]
  show "\<forall>i. Suc i < length samples \<longrightarrow> differing (samples ! Suc i) (samples ! i) \<le> 1" .
qed

theorem snapshot_differs_in_at_most_one_coordinate_witness:
  "inner_ok [0, 0] (Suspended \<lparr>fr_x = [0, 0], fr_x_prob = Fin (- ln (2 * pi)), fr_d = 0, fr_logy = Fin (- (1000000001 / 1000000000) - ln (2 * pi))\<rparr>) \<and>
   sample_inner_next rng_const lp_normal2 [0, 0] (Suspended \<lparr>fr_x = [0, 0], fr_x_prob = Fin (- ln (2 * pi)), fr_d = 0, fr_logy = Fin (- (1000000001 / 1000000000) - ln (2 * pi))\<rparr>) \<lparr>self = \<lparr>widths = Some [1, 1], ntune = 0\<rparr>, rd = (), evals = 6\<rparr> = Some (Inr ([0, 0], Suspended \<lparr>fr_x = [0, 0], fr_x_prob = Fin (- ln (2 * pi)), fr_d = 1, fr_logy = Fin (- (1000000001 / 1000000000) - ln (2 * pi))\<rparr>, \<lparr>self = \<lparr>widths = Some [1, 1], ntune = 0\<rparr>, rd = (), evals = 11\<rparr>)) \<and>
   next_dim [0, 0] (Suspended \<lparr>fr_x = [0, 0], fr_x_prob = Fin (- ln (2 * pi)), fr_d = 0, fr_logy = Fin (- (1000000001 / 1000000000) - ln (2 * pi))\<rparr>) = 1 \<and>
   prev_state [0, 0] (Suspended \<lparr>fr_x = [0, 0], fr_x_prob = Fin (- ln (2 * pi)), fr_d = 0, fr_logy = Fin (- (1000000001 / 1000000000) - ln (2 * pi))\<rparr>) = [0, 0] \<and>
   differing [0, 0] [0, 0] \<le> 1 \<and>
   sample_next rng_const lp_normal2 [0, 0] (Sampling (Suspended \<lparr>fr_x = [0, 0], fr_x_prob = Fin (- ln (2 * pi)), fr_d = 0, fr_logy = Fin (- (1000000001 / 1000000000) - ln (2 * pi))\<rparr>)) \<lparr>self = \<lparr>widths = Some [1, 1], ntune = 0\<rparr>, rd = (), evals = 6\<rparr> = Some (Inr ([0, 0], Sampling (Suspended \<lparr>fr_x = [0, 0], fr_x_prob = Fin (- ln (2 * pi)), fr_d = 1, fr_logy = Fin (- (1000000001 / 1000000000) - ln (2 * pi))\<rparr>), \<lparr>self = \<lparr>widths = Some [1, 1], ntune = 0\<rparr>, rd = (), evals = 11\<rparr>)) \<and>
   run rng_const lp_normal2 [0, 0] 5 (world0 None 0 ()) = Some (Inr ([[0, 0], [0, 0], [0, 0], [0, 0], [0, 0]], \<lparr>self = \<lparr>widths = Some [1, 1], ntune = 0\<rparr>, rd = (), evals = 26\<rparr>)) \<and>
   length [[0, 0], [0, 0], [0, 0], [0, 0], [0 :: real, 0]] = nat 5 \<and>
   list_all (\<lambda>r. length r = length [0 :: real, 0]) [[0, 0], [0, 0], [0, 0], [0, 0], [0 :: real, 0]] \<and>
   list_all (\<lambda>i. differing ([[0, 0], [0, 0], [0, 0], [0, 0], [0, 0]] ! Suc i) ([[0, 0], [0, 0], [0, 0], [0, 0], [0, 0]] ! i) \<le> 1) [0, 1, 2, 3]"
proof -
  have ok: "inner_ok [0, 0] (Suspended \<lparr>fr_x = [0, 0], fr_x_prob = Fin (- ln (2 * pi)), fr_d = 0, fr_logy = Fin (- (1000000001 / 1000000000) - ln (2 * pi))\<rparr>)"
    by (simp add: inner_ok_def)
  have I: "sample_inner_next rng_const lp_normal2 [0, 0] (Suspended \<lparr>fr_x = [0, 0], fr_x_prob = Fin (- ln (2 * pi)), fr_d = 0, fr_logy = Fin (- (1000000001 / 1000000000) - ln (2 * pi))\<rparr>) \<lparr>self = \<lparr>widths = Some [1, 1], ntune = 0\<rparr>, rd = (), evals = 6\<rparr> = Some (Inr ([0, 0], Suspended \<lparr>fr_x = [0, 0], fr_x_prob = Fin (- ln (2 * pi)), fr_d = 1, fr_logy = Fin (- (1000000001 / 1000000000) - ln (2 * pi))\<rparr>, \<lparr>self = \<lparr>widths = Some [1, 1], ntune = 0\<rparr>, rd = (), evals = 11\<rparr>))"
    by (simp add: eval_defs rng_const_def lp_normal2_def)
  have B: "sample_next rng_const lp_normal2 [0, 0] (Sampling (Suspended \<lparr>fr_x = [0, 0], fr_x_prob = Fin (- ln (2 * pi)), fr_d = 0, fr_logy = Fin (- (1000000001 / 1000000000) - ln (2 * pi))\<rparr>)) \<lparr>self = \<lparr>widths = Some [1, 1], ntune = 0\<rparr>, rd = (), evals = 6\<rparr> = Some (Inr ([0, 0], Sampling (Suspended \<lparr>fr_x = [0, 0], fr_x_prob = Fin (- ln (2 * pi)), fr_d = 1, fr_logy = Fin (- (1000000001 / 1000000000) - ln (2 * pi))\<rparr>), \<lparr>self = \<lparr>widths = Some [1, 1], ntune = 0\<rparr>, rd = (), evals = 11\<rparr>))"
    by (simp add: eval_defs rng_const_def lp_normal2_def)
  have R: "run rng_const lp_normal2 [0, 0] 5 (world0 None 0 ()) = Some (Inr ([[0, 0], [0, 0], [0, 0], [0, 0], [0, 0]], \<lparr>self = \<lparr>widths = Some [1, 1], ntune = 0\<rparr>, rd = (), evals = 26\<rparr>))"
    by (simp add: eval_defs rng_const_def lp_normal2_def upt_rec eval_nat_numeral)
  note t = snapshot_differs_in_at_most_one_coordinate[of "[0, 0]" "Suspended \<lparr>fr_x = [0, 0], fr_x_prob = Fin (- ln (2 * pi)), fr_d = 0, fr_logy = Fin (- (1000000001 / 1000000000) - ln (2 * pi))\<rparr>"
      rng_const lp_normal2 "\<lparr>self = \<lparr>widths = Some [1, 1], ntune = 0\<rparr>, rd = (), evals = 6\<rparr>" "[0, 0]" "Suspended \<lparr>fr_x = [0, 0], fr_x_prob = Fin (- ln (2 * pi)), fr_d = 1, fr_logy = Fin (- (1000000001 / 1000000000) - ln (2 * pi))\<rparr>" "\<lparr>self = \<lparr>widths = Some [1, 1], ntune = 0\<rparr>, rd = (), evals = 11\<rparr>"
      "Sampling (Suspended \<lparr>fr_x = [0, 0], fr_x_prob = Fin (- ln (2 * pi)), fr_d = 1, fr_logy = Fin (- (1000000001 / 1000000000) - ln (2 * pi))\<rparr>)"]
  note u = snapshot_differs_in_at_most_one_coordinate[of "[0, 0]" NotStarted
      rng_const lp_normal2 "world0 None 0 ()" "[0, 0]" NotStarted "\<lparr>self = \<lparr>widths = Some [1, 1], ntune = 0\<rparr>, rd = (), evals = 26\<rparr>" Created 5 "[[0, 0], [0, 0], [0, 0], [0, 0], [0, 0]]"]
  have n: "next_dim [0, 0] (Suspended \<lparr>fr_x = [0, 0], fr_x_prob = Fin (- ln (2 * pi)), fr_d = 0, fr_logy = Fin (- (1000000001 / 1000000000) - ln (2 * pi))\<rparr>) = 1"
    and p: "prev_state [0, 0] (Suspended \<lparr>fr_x = [0, 0], fr_x_prob = Fin (- ln (2 * pi)), fr_d = 0, fr_logy = Fin (- (1000000001 / 1000000000) - ln (2 * pi))\<rparr>) = [0, 0]"
    by (simp_all add: next_dim_def prev_state_def)
  have d: "differing [0, 0] [0, 0] \<le> 1"
  proof -
    from t[THEN conjunct1, THEN mp, OF conjI[OF ok I]] have "differing [0, 0] (prev_state [0, 0] (Suspended \<lparr>fr_x = [0, 0], fr_x_prob = Fin (- ln (2 * pi)), fr_d = 0, fr_logy = Fin (- (1000000001 / 1000000000) - ln (2 * pi))\<rparr>)) \<le> 1"
      by (elim conjE)
    then show ?thesis by (simp only: p)
  qed
  have c: "list_all (\<lambda>i. differing ([[0, 0], [0, 0], [0, 0], [0, 0], [0, 0]] ! Suc i) ([[0, 0], [0, 0], [0, 0], [0, 0], [0, 0]] ! i) \<le> 1) [0, 1, 2, 3]"
  proof -
    from u[THEN conjunct2, THEN conjunct2, THEN mp, OF R] have "\<forall>i. Suc i < length [[0, 0], [0, 0], [0, 0], [0, 0], [0 :: real, 0]] \<longrightarrow>
        differing ([[0, 0], [0, 0], [0, 0], [0, 0], [0, 0]] ! Suc i) ([[0, 0], [0, 0], [0, 0], [0, 0], [0, 0]] ! i) \<le> 1"
      by (elim conjE)
    then show ?thesis using d by simp
  qed
  show ?thesis
    using ok I B R n p d c by simp
qed

text \<open>
  C8 as stated claims that in the two-dimensional standard-normal scenario each row
  differs from the previous one in exactly one coordinate. With a random source whose
  exponential draws are 1 and whose uniform draws are 1/2, every accepted candidate
  is the old coordinate value 0: the five rows are equal, and the second differs from
  the first in no coordinate.
\<close>

theorem exactly_one_coordinate_counterexample:
  "run rng_const lp_normal2 [0, 0] 5 (world0 None 0 ()) = Some (Inr ([[0, 0], [0, 0], [0, 0], [0, 0], [0, 0]], \<lparr>self = \<lparr>widths = Some [1, 1], ntune = 0\<rparr>, rd = (), evals = 26\<rparr>)) \<and>
   differing ([[0, 0], [0, 0], [0, 0], [0, 0], [0, 0]] ! 1) ([[0, 0], [0, 0], [0, 0], [0, 0], [0, 0]] ! 0) = 0"
  by (simp add: eval_defs rng_const_def lp_normal2_def upt_rec eval_nat_numeral differing_def)

subsection \<open>Determinism\<close>

lemma rng_sim_flip: "rng_sim R rng1 rng2 \<Longrightarrow> rng_sim (\<lambda>t s. R s t) rng2 rng1"
  unfolding rng_sim_def by metis

lemma rng_simD:
  assumes "rng_sim R rng1 rng2" "R s t"
  shows "fst (rd_exp rng1 s) = fst (rd_exp rng2 t)"
    and "R (snd (rd_exp rng1 s)) (snd (rd_exp rng2 t))"
    and "fst (rd_uniform rng1 s) = fst (rd_uniform rng2 t)"
    and "R (snd (rd_uniform rng1 s)) (snd (rd_uniform rng2 t))"
  using assms unfolding rng_sim_def by blast+

lemma candidate_sim:
  assumes "rng_sim R rng1 rng2" "R s t"
  shows "candidate rng1 d a b xs s = candidate rng2 d a b xs t"
  using rng_simD(3)[OF assms] by (simp add: candidate_def)

lemma shrink_sim_Some:
  assumes "shrink rng1 logprob logy d x_p a b xs s n = Some res"
    and "rng_sim R rng1 rng2" and "R s t"
  shows "\<exists>r2. shrink rng2 logprob logy d x_p a b xs t n =
           Some (fst res, fst (snd res), r2, snd (snd (snd res))) \<and>
           R (fst (snd (snd res))) r2"
  using assms
proof (induction arbitrary: t rule: shrink.raw_induct[rotated 1, consumes 1])
  case (1 sh rng1 logprob logy d x_p a b xs s n res)
  let ?c = "candidate rng1 d a b xs s"
  have c: "candidate rng2 d a b xs t = ?c"
    using candidate_sim[OF "1.prems"] by simp
  note R' = rng_simD(4)[OF "1.prems"]
  show ?case
  proof (cases "fgt (logprob ?c) logy")
    case True
    with "1.hyps" have "res = (?c, logprob ?c, snd (rd_uniform rng1 s), Suc n)" by simp
    with True c R' show ?thesis by (simp add: shrink_accept)
  next
    case False
    show ?thesis
    proof (cases "?c ! d < x_p")
      case True
      with False "1.hyps"
      have "sh rng1 logprob logy d x_p (?c ! d) b ?c (snd (rd_uniform rng1 s)) (Suc n) = Some res"
        by simp
      from "1.IH"[OF this "1.prems"(1) R'] False True c show ?thesis
        by (simp add: shrink_reject_left)
    next
      case nl: False
      with False "1.hyps"
      have "sh rng1 logprob logy d x_p a (?c ! d) ?c (snd (rd_uniform rng1 s)) (Suc n) = Some res"
        by simp
      from "1.IH"[OF this "1.prems"(1) R'] False nl c show ?thesis
        by (simp add: shrink_reject_right)
    qed
  qed
qed

lemma shrink_sim:
  assumes "rng_sim R rng1 rng2" "R s t"
  shows "rel_option (\<lambda>res1 res2. fst res1 = fst res2 \<and> fst (snd res1) = fst (snd res2) \<and>
            snd (snd (snd res1)) = snd (snd (snd res2)) \<and>
            R (fst (snd (snd res1))) (fst (snd (snd res2))))
           (shrink rng1 logprob logy d x_p a b xs s n)
           (shrink rng2 logprob logy d x_p a b xs t n)"
proof (cases "shrink rng1 logprob logy d x_p a b xs s n")
  case None
  show ?thesis
  proof (cases "shrink rng2 logprob logy d x_p a b xs t n")
    case n2: None
    with None show ?thesis by simp
  next
    case (Some res2)
    from shrink_sim_Some[OF Some rng_sim_flip[OF assms(1)], of s] assms(2) None
    show ?thesis by simp
  qed
next
  case (Some res1)
  from shrink_sim_Some[OF Some assms] obtain r2 where
    "shrink rng2 logprob logy d x_p a b xs t n =
       Some (fst res1, fst (snd res1), r2, snd (snd (snd res1)))"
    and "R (fst (snd (snd res1))) r2"
    by blast
  with Some show ?thesis by simp
qed

lemma bindE_rel:
  assumes "rel_result A m1 m2"
    and "\<And>u v. A u v \<Longrightarrow> rel_result B (f u) (g v)"
  shows "rel_result B (bindE m1 f) (bindE m2 g)"
proof (cases m1)
  case None
  with assms(1) show ?thesis by (cases m2) (simp_all add: bindE_simps)
next
  case (Some r1)
  from Some assms(1) obtain r2 where m2: "m2 = Some r2" and r: "rel_sum (=) A r1 r2"
    by (cases m2) auto
  show ?thesis
  proof (cases r1)
    case (Inl e)
    with r Some m2 show ?thesis by (cases r2) (simp_all add: bindE_simps)
  next
    case (Inr u)
    with r obtain v where "r2 = Inr v" "A u v" by (cases r2) auto
    with Inr Some m2 assms(2)[of u v] show ?thesis by (simp add: bindE_simps)
  qed
qed

lemma for_loop_rel:
  assumes "\<And>v s t. A s t \<Longrightarrow> rel_result A (body1 v s) (body2 v t)" and "A s t"
  shows "rel_result A (for_loop vs body1 s) (for_loop vs body2 t)"
  using assms(2)
proof (induction vs arbitrary: s t)
  case Nil
  then show ?case by simp
next
  case (Cons v vs)
  show ?case
    unfolding for_loop.simps
    by (rule bindE_rel[OF assms(1)[OF Cons.prems]]) (rule Cons.IH)
qed

lemma elem_step_sim:
  assumes "rng_sim R rng1 rng2" "world_sim R w1 w2"
  shows "rel_result (\<lambda>r1 r2. fst r1 = fst r2 \<and> world_sim R (snd r1) (snd r2))
           (elem_step rng1 logprob x x_prob d w1) (elem_step rng2 logprob x x_prob d w2)"
proof -
  from assms(2) have sw: "widths (self w2) = widths (self w1)" and ev: "evals w2 = evals w1"
    and nt: "nat (ntune (self w2)) = nat (ntune (self w1))" and R0: "R (rd w1) (rd w2)"
    by (simp_all add: world_sim_def)
  note e = rng_simD(1)[OF assms(1) R0]
  note R1 = rng_simD(2)[OF assms(1) R0]
  note u = rng_simD(3)[OF assms(1) R1]
  note R2 = rng_simD(4)[OF assms(1) R1]
  show ?thesis
  proof (cases "widths (self w1)")
    case None
    with sw show ?thesis by (simp add: elem_step_def)
  next
    case (Some ws)
    show ?thesis
    proof (cases "length ws \<le> d")
      case True
      with Some sw show ?thesis by (simp add: elem_step_def)
    next
      case False
      define logy where "logy = slice_height x_prob (fst (rd_exp rng1 (rd w1)))"
      define ab where "ab = trial_interval x d (fst (rd_uniform rng1 (snd (rd_exp rng1 (rd w1))))) (ws ! d)"
      show ?thesis
      proof (cases "step_out_left logprob logy (ws ! d) d (x[d := fst ab]) (evals w1)")
        case None
        with Some False sw ev e u show ?thesis
          by (simp add: elem_step_def Let_def split_beta logy_def ab_def)
      next
        case sl: (Some l)
        show ?thesis
        proof (cases "step_out_right logprob logy (ws ! d) d ((fst l)[d := snd ab]) (snd l)")
          case None
          with sl Some False sw ev e u show ?thesis
            by (simp add: elem_step_def Let_def split_beta logy_def ab_def)
        next
          case sr: (Some r)
          from shrink_sim[OF assms(1) R2, of logprob logy d "x ! d" "fst l ! d" "fst r ! d" "fst r" "snd r"]
          show ?thesis
            using sr sl Some False sw ev e u nt
            by (cases "shrink rng1 logprob logy d (x ! d) (fst l ! d) (fst r ! d) (fst r)
                         (snd (rd_uniform rng1 (snd (rd_exp rng1 (rd w1))))) (snd r)";
                cases "shrink rng2 logprob logy d (x ! d) (fst l ! d) (fst r ! d) (fst r)
                         (snd (rd_uniform rng2 (snd (rd_exp rng2 (rd w2))))) (snd r)")
               (simp_all add: elem_step_def Let_def split_beta logy_def ab_def world_sim_def)
        qed
      qed
    qed
  qed
qed

lemma sample_inner_next_sim:
  assumes "rng_sim R rng1 rng2" "world_sim R w1 w2"
  shows "rel_result (\<lambda>r1 r2. fst r1 = fst r2 \<and> fst (snd r1) = fst (snd r2) \<and>
                       world_sim R (snd (snd r1)) (snd (snd r2)))
           (sample_inner_next rng1 logprob init st w1) (sample_inner_next rng2 logprob init st w2)"
proof (cases "length init = 0")
  case True
  then show ?thesis by (simp add: sample_inner_next_def split: inner.splits)
next
  case False
  have w: "world_sim R (w1\<lparr>evals := Suc (evals w1)\<rparr>) (w2\<lparr>evals := Suc (evals w2)\<rparr>)"
    using assms(2) by (simp add: world_sim_def)
  show ?thesis
  proof (cases st)
    case NotStarted
    with False show ?thesis
      unfolding sample_inner_next_def
      by (auto intro!: bindE_rel[OF elem_step_sim[OF assms(1) w]])
  next
    case (Suspended fr)
    with False show ?thesis
      unfolding sample_inner_next_def
      by (auto simp: Let_def intro!: bindE_rel[OF elem_step_sim[OF assms(1) assms(2)]])
  qed
qed

lemma tune_body_sim:
  assumes "rng_sim R rng1 rng2"
    and "fst s = fst t \<and> fst (snd s) = fst (snd t) \<and> world_sim R (snd (snd s)) (snd (snd t))"
  shows "rel_result (\<lambda>r1 r2. fst r1 = fst r2 \<and> fst (snd r1) = fst (snd r2) \<and>
                       world_sim R (snd (snd r1)) (snd (snd r2)))
           (tune_body rng1 logprob init d s) (tune_body rng2 logprob init d t)"
proof -
  obtain prev st w1 where s: "s = (prev, st, w1)" by (cases s) auto
  with assms(2) obtain w2 where t: "t = (prev, st, w2)" and w: "world_sim R w1 w2"
    by (cases t) auto
  show ?thesis
    unfolding s t tune_body_def prod.case
    by (rule bindE_rel[OF sample_inner_next_sim[OF assms(1) w]])
       (auto simp: world_sim_def split: option.splits)
qed

lemma tune_sim:
  assumes "rng_sim R rng1 rng2" "world_sim R w1 w2"
  shows "rel_result (\<lambda>r1 r2. fst r1 = fst r2 \<and> fst (snd r1) = fst (snd r2) \<and>
                       world_sim R (snd (snd r1)) (snd (snd r2)))
           (tune rng1 logprob init (prev, st, w1)) (tune rng2 logprob init (prev, st, w2))"
proof -
  from assms(2) have n: "nat (ntune (self w2)) = nat (ntune (self w1))"
    by (simp add: world_sim_def)
  show ?thesis
    unfolding tune_def prod.case n
    by (rule for_loop_rel, rule for_loop_rel, rule tune_body_sim[OF assms(1)])
       (use assms(2) in auto)
qed

lemma yield_next_sim:
  assumes "rng_sim R rng1 rng2" "world_sim R w1 w2"
  shows "rel_result (\<lambda>r1 r2. fst r1 = fst r2 \<and> fst (snd r1) = fst (snd r2) \<and>
                       world_sim R (snd (snd r1)) (snd (snd r2)))
           (yield_next rng1 logprob init st w1) (yield_next rng2 logprob init st w2)"
  unfolding yield_next_def
  by (rule bindE_rel[OF sample_inner_next_sim[OF assms]]) auto

lemma sample_next_sim:
  assumes "rng_sim R rng1 rng2" "world_sim R w1 w2"
  shows "rel_result (\<lambda>r1 r2. fst r1 = fst r2 \<and> fst (snd r1) = fst (snd r2) \<and>
                       world_sim R (snd (snd r1)) (snd (snd r2)))
           (sample_next rng1 logprob init g w1) (sample_next rng2 logprob init g w2)"
proof (cases g)
  case (Sampling st)
  then show ?thesis by (simp add: sample_next_def yield_next_sim[OF assms])
next
  case Created
  have d: "world_sim R (default_widths init w1) (default_widths init w2)"
    using assms(2) by (simp add: world_sim_def default_widths_def)
  then have "nat (ntune (self (default_widths init w2))) = nat (ntune (self (default_widths init w1)))"
    by (simp add: world_sim_def)
  then have n: "(0 < ntune (self (default_widths init w2))) = (0 < ntune (self (default_widths init w1)))"
    by (metis zero_less_nat_eq)
  show ?thesis
  proof (cases "0 < ntune (self (default_widths init w1))")
    case False
    with Created n show ?thesis
      by (simp add: sample_next_def Let_def yield_next_sim[OF assms(1) d])
  next
    case True
    have "rel_result (\<lambda>r1 r2. fst r1 = fst r2 \<and> fst (snd r1) = fst (snd r2) \<and>
                       world_sim R (snd (snd r1)) (snd (snd r2)))
           (bindE (tune rng1 logprob init (init, NotStarted, default_widths init w1))
              (\<lambda>(prev, state, w2). yield_next rng1 logprob init state w2))
           (bindE (tune rng2 logprob init (init, NotStarted, default_widths init w2))
              (\<lambda>(prev, state, w2). yield_next rng2 logprob init state w2))"
      by (rule bindE_rel[OF tune_sim[OF assms(1) d]])
         (auto intro: yield_next_sim[OF assms(1)])
    with Created True n show ?thesis by (simp add: sample_next_def Let_def)
  qed
qed

lemma run_body_sim:
  assumes "rng_sim R rng1 rng2"
    and "fst s = fst t \<and> fst (snd s) = fst (snd t) \<and> world_sim R (snd (snd s)) (snd (snd t))"
  shows "rel_result (\<lambda>r1 r2. fst r1 = fst r2 \<and> fst (snd r1) = fst (snd r2) \<and>
                       world_sim R (snd (snd r1)) (snd (snd r2)))
           (run_body rng1 logprob init i s) (run_body rng2 logprob init i t)"
proof -
  obtain samples g w1 where s: "s = (samples, g, w1)" by (cases s) auto
  with assms(2) obtain w2 where t: "t = (samples, g, w2)" and w: "world_sim R w1 w2"
    by (cases t) auto
  show ?thesis
    unfolding s t run_body_def prod.case
    by (rule bindE_rel[OF sample_next_sim[OF assms(1) w]]) auto
qed

lemma run_sim:
  assumes "rng_sim R rng1 rng2" "world_sim R w1 w2"
  shows "rel_result (\<lambda>r1 r2. fst r1 = fst r2 \<and> world_sim R (snd r1) (snd r2))
           (run rng1 logprob init nsteps w1) (run rng2 logprob init nsteps w2)"
proof (cases "nsteps < 0")
  case True
  then show ?thesis by (simp add: run_def)
next
  case False
  have "rel_result (\<lambda>r1 r2. fst r1 = fst r2 \<and> world_sim R (snd r1) (snd r2))
     (bindE (for_loop [0 ..< nat nsteps] (run_body rng1 logprob init)
               (replicate (nat nsteps) (replicate (length init) 0), Created, w1))
        (\<lambda>(samples, g, w'). Some (Inr (samples, w'))))
     (bindE (for_loop [0 ..< nat nsteps] (run_body rng2 logprob init)
               (replicate (nat nsteps) (replicate (length init) 0), Created, w2))
        (\<lambda>(samples, g, w'). Some (Inr (samples, w'))))"
    by (rule bindE_rel, rule for_loop_rel, rule run_body_sim[OF assms(1)])
       (use assms(2) in auto)
  with False show ?thesis by (simp add: run_def)
qed

text \<open>
  C9. Two runs with the same sampler configuration, the same log-density, the same
  initial vector and the same \<open>nsteps\<close>, on random sources that produce
  identical draws, have the same outcome: the same matrix, or the same exception, or
  both never return. The two sources may be different objects with different hidden
  states; what is asked is that from related states both methods return equal draws
  and lead to related states (\<open>rng_sim\<close>). Equality is that of the model's values:
  exact reals stand for the floats.
\<close>

theorem identical_draws_identical_output:
  assumes "rng_sim R rng1 rng2"
    and "R (rd w1) (rd w2)"
    and "self w1 = self w2"
    and "evals w1 = evals w2"
  shows "map_option (map_sum id fst) (run rng1 logprob init nsteps w1) =
         map_option (map_sum id fst) (run rng2 logprob init nsteps w2)"
proof -
  from assms(2-4) have w: "world_sim R w1 w2" by (simp add: world_sim_def)
  from run_sim[OF assms(1) w, of logprob init nsteps] show ?thesis
    by (cases "run rng1 logprob init nsteps w1"; cases "run rng2 logprob init nsteps w2")
       (auto elim: rel_sum.cases)
qed

theorem identical_draws_identical_output_witness:
  "rng_sim (\<lambda>s t. True) rng_const rng_count \<and>
   run rng_const lp_normal2 [0, 0] 3 (world0 None 0 ()) =
     Some (Inr ([[0, 0], [0, 0], [0, 0]],
                \<lparr>self = \<lparr>widths = Some [1, 1], ntune = 0\<rparr>, rd = (), evals = 16\<rparr>)) \<and>
   run rng_count lp_normal2 [0, 0] 3 (world0 None 0 0) =
     Some (Inr ([[0, 0], [0, 0], [0, 0]],
                \<lparr>self = \<lparr>widths = Some [1, 1], ntune = 0\<rparr>, rd = 9, evals = 16\<rparr>)) \<and>
   map_option (map_sum id fst) (run rng_const lp_normal2 [0, 0] 3 (world0 None 0 ())) =
   map_option (map_sum id fst) (run rng_count lp_normal2 [0, 0] 3 (world0 None 0 0))"
proof -
  have s: "rng_sim (\<lambda>s t. True) rng_const rng_count"
    by (simp add: rng_sim_def rng_const_def rng_count_def)
  have r: "(\<lambda>s t. True) (rd (world0 None 0 ())) (rd (world0 None 0 (0::nat)))" by simp
  have c: "self (world0 None 0 ()) = self (world0 None 0 (0::nat))"
    and e: "evals (world0 None 0 ()) = evals (world0 None 0 (0::nat))"
    by (simp_all add: world0_def)
  have a: "run rng_const lp_normal2 [0, 0] 3 (world0 None 0 ()) =
     Some (Inr ([[0, 0], [0, 0], [0, 0]],
                \<lparr>self = \<lparr>widths = Some [1, 1], ntune = 0\<rparr>, rd = (), evals = 16\<rparr>))"
    by (simp add: eval_defs rng_const_def lp_normal2_def upt_rec eval_nat_numeral)
  have b: "run rng_count lp_normal2 [0, 0] 3 (world0 None 0 0) =
     Some (Inr ([[0, 0], [0, 0], [0, 0]],
                \<lparr>self = \<lparr>widths = Some [1, 1], ntune = 0\<rparr>, rd = 9, evals = 16\<rparr>))"
    by (simp add: eval_defs rng_count_def lp_normal2_def upt_rec eval_nat_numeral)
  from identical_draws_identical_output[OF s r c e, of lp_normal2 "[0, 0]" 3] s a b
  show ?thesis by (simp only: simp_thms)
qed

subsection \<open>No validation of the configuration\<close>

lemma rng_sim_refl: "rng_sim (=) rng rng"
  by (simp add: rng_sim_def)

lemma run_negative_nsteps:
  "nsteps < 0 \<Longrightarrow> run rng logprob init nsteps w = Some (Inl ValueError)"
  by (simp add: run_def)

lemma sample_next_no_tuning:
  "ntune (self w) \<le> 0 \<Longrightarrow>
   sample_next rng logprob init Created w =
     yield_next rng logprob init NotStarted (default_widths init w)"
  by (simp add: sample_next_def Let_def default_widths_ntune)

lemma run_nonpositive_ntune:
  assumes "ntune (self w) \<le> 0"
  shows "map_option (map_sum id fst) (run rng logprob init nsteps w) =
         map_option (map_sum id fst)
           (run rng logprob init nsteps (w\<lparr>self := (self w)\<lparr>ntune := 0\<rparr>\<rparr>))"
proof -
  from assms have w: "world_sim (=) w (w\<lparr>self := (self w)\<lparr>ntune := 0\<rparr>\<rparr>)"
    by (simp add: world_sim_def)
  from run_sim[OF rng_sim_refl w, of rng logprob init nsteps] show ?thesis
    by (cases "run rng logprob init nsteps w";
        cases "run rng logprob init nsteps (w\<lparr>self := (self w)\<lparr>ntune := 0\<rparr>\<rparr>)")
       (auto elim: rel_sum.cases)
qed

text \<open>
  C3, as amended. A negative \<open>nsteps\<close> fails at call time, whatever the other
  arguments are and before any random draw or log-density evaluation: the allocation
  of the output array raises ValueError. Nothing else is checked. With \<open>ntune \<le> 0\<close>
  the first pull goes straight to sampling, and the run has the outcome it has with
  \<open>ntune = 0\<close>.
\<close>

theorem only_negative_nsteps_fails_fast:
  "(nsteps < 0 \<longrightarrow> run rng logprob init nsteps w = Some (Inl ValueError)) \<and>
   (ntune (self w) \<le> 0 \<longrightarrow>
      sample_next rng logprob init Created w =
        yield_next rng logprob init NotStarted (default_widths init w) \<and>
      map_option (map_sum id fst) (run rng logprob init nsteps w) =
      map_option (map_sum id fst)
        (run rng logprob init nsteps (w\<lparr>self := (self w)\<lparr>ntune := 0\<rparr>\<rparr>)))"
  using run_negative_nsteps[of nsteps rng logprob init w]
    sample_next_no_tuning[of w rng logprob init]
    run_nonpositive_ntune[of w rng logprob init nsteps]
  by blast

theorem only_negative_nsteps_fails_fast_witness:
  "(- 1 :: int) < 0 \<and>
   run rng_const lp_normal1 [0] (- 1) (world0 (Some [1]) 0 ()) = Some (Inl ValueError) \<and>
   ntune (self (world0 (Some [1]) (- 3) ())) \<le> 0 \<and>
   run rng_const lp_normal1 [0] 2 (world0 (Some [1]) (- 3) ()) =
     Some (Inr ([[0], [0]],
                \<lparr>self = \<lparr>widths = Some [1], ntune = - 3\<rparr>, rd = (), evals = 11\<rparr>)) \<and>
   map_option (map_sum id fst) (run rng_const lp_normal1 [0] 2 (world0 (Some [1]) (- 3) ())) =
   map_option (map_sum id fst)
     (run rng_const lp_normal1 [0] 2
        ((world0 (Some [1]) (- 3) ())\<lparr>self := (self (world0 (Some [1]) (- 3) ()))\<lparr>ntune := 0\<rparr>\<rparr>))"
proof -
  have n: "(- 1 :: int) < 0" by simp
  have t: "ntune (self (world0 (Some [1]) (- 3) ())) \<le> 0"
    by (simp add: world0_def ComponentWiseSlice_def)
  have r: "run rng_const lp_normal1 [0] 2 (world0 (Some [1]) (- 3) ()) =
     Some (Inr ([[0], [0]],
                \<lparr>self = \<lparr>widths = Some [1], ntune = - 3\<rparr>, rd = (), evals = 11\<rparr>))"
    by (simp add: eval_defs rng_const_def lp_normal1_def upt_rec eval_nat_numeral)
  note a = only_negative_nsteps_fails_fast[of "- 1" rng_const lp_normal1 "[0]"
      "world0 (Some [1]) 0 ()", THEN conjunct1, THEN mp, OF n]
  note b = only_negative_nsteps_fails_fast[of 2 rng_const lp_normal1 "[0]"
      "world0 (Some [1]) (- 3) ()", THEN conjunct2, THEN mp, OF t, THEN conjunct2]
  from n a t r b show ?thesis by (simp only: simp_thms)
qed

text \<open>
  C3 as stated asks for an InvalidConfiguration error for a negative \<open>ntune\<close>, an
  empty \<open>init\<close>, a non-positive width or widths of another length than \<open>init\<close>.
  The code has no such error and makes no such check. Each of these calls returns
  normally: \<open>ntune = -1\<close>; \<open>widths = [-1]\<close>; two widths for a one-dimensional
  \<open>init\<close>; and an empty \<open>init\<close> with no step, which returns the empty matrix.
\<close>

theorem invalid_configuration_counterexample:
  "run rng_const lp_normal1 [0] 1 (world0 (Some [1]) (- 1) ()) =
     Some (Inr ([[0]], \<lparr>self = \<lparr>widths = Some [1], ntune = - 1\<rparr>, rd = (), evals = 6\<rparr>)) \<and>
   run rng_const lp_normal1 [0] 1 (world0 (Some [- 1]) 0 ()) =
     Some (Inr ([[0]], \<lparr>self = \<lparr>widths = Some [- 1], ntune = 0\<rparr>, rd = (), evals = 6\<rparr>)) \<and>
   run rng_const lp_normal1 [0] 1 (world0 (Some [1, 1]) 0 ()) =
     Some (Inr ([[0]], \<lparr>self = \<lparr>widths = Some [1, 1], ntune = 0\<rparr>, rd = (), evals = 6\<rparr>)) \<and>
   run rng_const lp_normal1 [] 0 (world0 None 0 ()) =
     Some (Inr ([], \<lparr>self = \<lparr>widths = None, ntune = 0\<rparr>, rd = (), evals = 0\<rparr>))"
  by (simp add: eval_defs rng_const_def lp_normal1_def)

end
